theory Spec2Isabelle
  imports Main "HOL-Library.AList"
begin

section \<open>Synchronising a generated collection with the Postman service\<close>

text \<open>
  This theory embeds \<^verbatim>\<open>Portman.syncCollectionToPostman\<close> and the three methods of
  \<^verbatim>\<open>PostmanService\<close> it calls (\<^verbatim>\<open>createCollection\<close>, \<^verbatim>\<open>updateCollection\<close>,
  \<^verbatim>\<open>findCollectionByName\<close>), all from \<^verbatim>\<open>src/src/Portman.ts\<close>.

  The code is effectful: it reads and writes the file \<^verbatim>\<open>.portman.cache\<close>, calls the remote
  service through \<^verbatim>\<open>axios\<close> and prints to the console. The embedding threads a state
  (the cache file and the trace of effects so far) through every function, and takes the
  behaviour of the outside world as a parameter: what the service answers to a request, and
  whether a file write succeeds, are functions of the moment of the call (the length of the
  trace), so that every schedule of answers is covered.
\<close>

subsection \<open>JSON values\<close>

text \<open>
  Values that went through \<^verbatim>\<open>JSON.parse\<close>. JavaScript's \<^verbatim>\<open>undefined\<close> is \<open>None\<close> of
  \<open>json option\<close>. Of a number only the test against zero matters here, so numbers are
  integers.
\<close>

datatype json =
    JNull
  | JBool bool
  | JNum int
  | JStr string
  | JArr "json list"
  | JObj "(string \<times> json) list"

text \<open>Truthiness, as tested by \<^verbatim>\<open>if (v)\<close> and \<^verbatim>\<open>!v\<close>.\<close>

fun truthy :: "json \<Rightarrow> bool" where
  "truthy JNull = False"
| "truthy (JBool b) = b"
| "truthy (JNum n) = (n \<noteq> 0)"
| "truthy (JStr s) = (s \<noteq> [])"
| "truthy (JArr xs) = True"
| "truthy (JObj kvs) = True"


text \<open>
  \<open>get_prop v k\<close> is the property read \<^verbatim>\<open>v.k\<close> on a value that is not \<^verbatim>\<open>null\<close>, for the
  keys the code writes out: \<^verbatim>\<open>uid\<close>, \<^verbatim>\<open>name\<close>, \<^verbatim>\<open>updatedAt\<close>, \<^verbatim>\<open>collection\<close>,
  \<^verbatim>\<open>collections\<close> and \<^verbatim>\<open>error\<close>. No built-in prototype defines one of these, so the read
  finds the own property of an object and \<^verbatim>\<open>undefined\<close> on anything else. (The read under
  the collection's name, which may be any string, is \<open>subscript\<close> below.)
  \<open>opt_prop v k\<close> is the optional chain \<^verbatim>\<open>v?.k\<close>.
\<close>

fun get_prop :: "json \<Rightarrow> string \<Rightarrow> json option" where
  "get_prop (JObj kvs) k = map_of kvs k"
| "get_prop _ k = None"

definition opt_prop :: "json option \<Rightarrow> string \<Rightarrow> json option" where
  "opt_prop v k = (case v of None \<Rightarrow> None | Some JNull \<Rightarrow> None | Some j \<Rightarrow> get_prop j k)"

subsection \<open>Strings: lower-casing and whitespace\<close>

text \<open>
  A \<open>char\<close> is read as a UTF-16 code unit below 256 (Latin-1). On that range
  \<^verbatim>\<open>toLowerCase\<close> adds 32 to \<^verbatim>\<open>A-Z\<close> and to U+00C0..U+00DE except U+00D7, and the
  class \<^verbatim>\<open>\s\<close> holds tab, line feed, vertical tab, form feed, carriage return, space and
  the no-break space U+00A0.
\<close>

definition is_upper :: "char \<Rightarrow> bool" where
  "is_upper c = (let n = (of_char c :: nat) in
     (65 \<le> n \<and> n \<le> 90) \<or> (192 \<le> n \<and> n \<le> 214) \<or> (216 \<le> n \<and> n \<le> 222))"

definition lower_char :: "char \<Rightarrow> char" where
  "lower_char c = (if is_upper c then char_of ((of_char c :: nat) + 32) else c)"

definition toLowerCase :: "string \<Rightarrow> string" where
  "toLowerCase s = map lower_char s"

definition is_whitespace :: "char \<Rightarrow> bool" where
  "is_whitespace c = ((of_char c :: nat) \<in> {9, 10, 11, 12, 13, 32, 160})"

text \<open>\<^verbatim>\<open>s.toLowerCase().replace(/\s/g, '')\<close>\<close>

definition normalize :: "string \<Rightarrow> string" where
  "normalize s = filter (\<lambda>c. \<not> is_whitespace c) (toLowerCase s)"

subsection \<open>The outside world\<close>

text \<open>
  The cache file \<^verbatim>\<open>.portman.cache\<close>: absent (\<^verbatim>\<open>readFileSync\<close> throws), not JSON
  (\<^verbatim>\<open>JSON.parse\<close> throws), or a JSON document. The documents are \<^verbatim>\<open>null\<close>, a number, a
  boolean or an object; a file holding a bare JSON string or array, which the program
  never writes, is not modelled. An object is the list of its own properties in the
  order \<^verbatim>\<open>JSON.stringify\<close> writes them.
\<close>

datatype cache_doc =
    DNull
  | DNum int
  | DBool bool
  | DObject "(string \<times> json) list"

datatype cache_file = Absent | Malformed | Document cache_doc

text \<open>The three requests sent through \<^verbatim>\<open>axios\<close>, and how a request ends.\<close>

datatype request =
    Post json         \<comment> \<open>\<^verbatim>\<open>POST /collections\<close> with the collection\<close>
  | Put json json     \<comment> \<open>\<^verbatim>\<open>PUT /collections/${uuid}\<close>: the uuid, then the collection\<close>
  | Get               \<comment> \<open>\<^verbatim>\<open>GET /collections\<close>\<close>

datatype axios_result =
    Fulfilled json                  \<comment> \<open>\<^verbatim>\<open>res.data\<close>\<close>
  | Rejected string "json option"   \<comment> \<open>\<^verbatim>\<open>error.toString()\<close> and \<^verbatim>\<open>error?.response?.data\<close>\<close>

datatype status = Success | Fail

text \<open>
  What \<^verbatim>\<open>createCollection\<close> and \<^verbatim>\<open>updateCollection\<close> return: the text of
  \<^verbatim>\<open>{ status, data }\<close>, which the caller parses back at once. \<^verbatim>\<open>JSON.stringify\<close> drops a
  \<^verbatim>\<open>data\<close> that is \<^verbatim>\<open>undefined\<close>, and the parsed object then reads it as \<^verbatim>\<open>undefined\<close>.
\<close>

record response =
  status :: status
  data :: "json option"

datatype console_msg =
    ListError "json option"                   \<comment> \<open>\<^verbatim>\<open>console.log(error?.response?.data)\<close>\<close>
  | MultipleMatching string                   \<comment> \<open>the warning of \<^verbatim>\<open>findCollectionByName\<close>\<close>
  | CreateData "json option"                  \<comment> \<open>\<^verbatim>\<open>console.log('createCollection', data)\<close>\<close>
  | ReportSuccess "json option" "json option" \<comment> \<open>name and uid of \<^verbatim>\<open>data?.collection\<close>\<close>
  | ReportFail string "json option"           \<comment> \<open>\<^verbatim>\<open>collUid\<close> and \<^verbatim>\<open>data?.error\<close>\<close>

datatype event =
    ReadCache cache_doc             \<comment> \<open>the cache file was read: \<^verbatim>\<open>portmanCache\<close> after the \<^verbatim>\<open>try\<close>\<close>
  | Request request axios_result    \<comment> \<open>one call of \<^verbatim>\<open>axios\<close> and how it ended\<close>
  | WriteCache cache_doc bool       \<comment> \<open>one \<^verbatim>\<open>writeFileSync\<close> of the cache, and whether it succeeded\<close>
  | Console console_msg

datatype exn = RangeError | TypeError | SyntaxError | IOError

text \<open>
  The three places inside the \<^verbatim>\<open>try\<close> of \<^verbatim>\<open>findCollectionByName\<close> that can throw a
  TypeError: \<^verbatim>\<open>data.collections\<close> on \<^verbatim>\<open>null\<close>, \<^verbatim>\<open>.filter\<close> on what is not an array, and
  \<^verbatim>\<open>.toLowerCase()\<close> on a name that is not a string.
\<close>

datatype fault = NoData | NotAnArray | NameNotAString

text \<open>
  The environment. \<open>axios E t r\<close> is the outcome of request \<open>r\<close> sent when the trace has
  length \<open>t\<close>; \<open>write_ok E t\<close> tells whether a write at that moment succeeds.
  \<open>columns\<close> is \<^verbatim>\<open>process.stdout.columns\<close> (\<^verbatim>\<open>undefined\<close> off a terminal).
  \<open>dateValue\<close> is the time value of \<^verbatim>\<open>new Date(v)\<close>, \<open>None\<close> for an invalid date (NaN);
  \<open>impl_sort\<close> is the order \<^verbatim>\<open>Array.prototype.sort\<close> produces when the comparison
  function is not consistent, which the language leaves to the implementation.
  \<open>error_text\<close> is \<^verbatim>\<open>error.toString()\<close> of the TypeError thrown at a place, in the
  wording of the runtime.
\<close>

record env =
  axios :: "nat \<Rightarrow> request \<Rightarrow> axios_result"
  write_ok :: "nat \<Rightarrow> bool"
  columns :: "int option"
  dateValue :: "json option \<Rightarrow> int option"
  impl_sort :: "json list \<Rightarrow> json list"
  error_text :: "fault \<Rightarrow> string"

record state =
  portmanCacheFile :: cache_file
  trace :: "event list"

definition emit :: "event \<Rightarrow> state \<Rightarrow> state" where
  "emit e s = s\<lparr>trace := trace s @ [e]\<rparr>"

text \<open>The fields of \<^verbatim>\<open>this\<close> that the synchronisation reads.\<close>

record portman =
  collName :: string             \<comment> \<open>\<^verbatim>\<open>portmanCollection?.info?.name as string\<close>\<close>
  portmanCollection :: json
  syncPostman :: bool
  postmanUid :: "string option"  \<comment> \<open>\<^verbatim>\<open>options.postmanUid\<close>\<close>

subsection \<open>PostmanService\<close>

text \<open>
  One call of \<^verbatim>\<open>axios(config)\<close>. The progress spinner and the request interceptor that
  starts it print only, and are left out; so is the colouring of the console output.
\<close>

definition send :: "env \<Rightarrow> request \<Rightarrow> state \<Rightarrow> axios_result \<times> state" where
  "send E r s = (let res = axios E (length (trace s)) r in (res, emit (Request r res) s))"

definition createCollection :: "env \<Rightarrow> json \<Rightarrow> state \<Rightarrow> response \<times> state" where
  "createCollection E coll s =
     (case send E (Post coll) s of
        (Fulfilled respData, s') \<Rightarrow> (\<lparr>status = Success, data = Some respData\<rparr>, s')
      | (Rejected msg payload, s') \<Rightarrow> (\<lparr>status = Fail, data = payload\<rparr>, s'))"

definition updateCollection :: "env \<Rightarrow> json \<Rightarrow> json \<Rightarrow> state \<Rightarrow> response \<times> state" where
  "updateCollection E coll uuid s =
     (case send E (Put uuid coll) s of
        (Fulfilled respData, s') \<Rightarrow> (\<lparr>status = Success, data = Some respData\<rparr>, s')
      | (Rejected msg payload, s') \<Rightarrow> (\<lparr>status = Fail, data = payload\<rparr>, s'))"

text \<open>
  The callback of \<^verbatim>\<open>data.collections.filter\<close>: an item without a truthy \<^verbatim>\<open>name\<close> is
  dropped; \<^verbatim>\<open>o.name.toLowerCase()\<close> on a truthy name that is not a string throws a
  TypeError, which ends the whole filter.
\<close>

definition name_matches :: "string \<Rightarrow> json \<Rightarrow> exn + bool" where
  "name_matches cn item =
     (case opt_prop (Some item) ''name'' of
        None \<Rightarrow> Inr False
      | Some n \<Rightarrow>
          if \<not> truthy n then Inr False
          else (case n of
                  JStr s \<Rightarrow> Inr (normalize s = normalize cn)
                | _ \<Rightarrow> Inl TypeError))"

fun filter_matches :: "string \<Rightarrow> json list \<Rightarrow> exn + json list" where
  "filter_matches cn [] = Inr []"
| "filter_matches cn (item # items) =
     (case name_matches cn item of
        Inl e \<Rightarrow> Inl e
      | Inr b \<Rightarrow>
          (case filter_matches cn items of
             Inl e \<Rightarrow> Inl e
           | Inr ms \<Rightarrow> Inr (if b then item # ms else ms)))"

text \<open>
  \<^verbatim>\<open>matches.sort((a, b) => new Date(b.updatedAt) - new Date(a.updatedAt))\<close>: a stable sort,
  newest first, when every date is valid.
\<close>

definition updatedAt :: "env \<Rightarrow> json \<Rightarrow> int option" where
  "updatedAt E m = dateValue E (get_prop m ''updatedAt'')"

definition sort_newest_first :: "env \<Rightarrow> json list \<Rightarrow> json list" where
  "sort_newest_first E ms =
     (if list_all (\<lambda>m. updatedAt E m \<noteq> None) ms
      then sort_key (\<lambda>m. - the (updatedAt E m)) ms
      else impl_sort E ms)"

text \<open>
  \<^verbatim>\<open>findCollectionByName\<close>. Everything after the request sits in one \<^verbatim>\<open>try\<close>; the
  \<^verbatim>\<open>catch\<close> prints \<^verbatim>\<open>error?.response?.data\<close> and returns \<^verbatim>\<open>error.toString()\<close>, a string.
\<close>

definition caught :: "env \<Rightarrow> fault \<Rightarrow> state \<Rightarrow> json \<times> state" where
  "caught E f s = (JStr (error_text E f), emit (Console (ListError None)) s)"

definition pick_match :: "env \<Rightarrow> string \<Rightarrow> json list \<Rightarrow> state \<Rightarrow> json \<times> state" where
  "pick_match E cn matches s =
     (if length matches = 1 then (hd matches, s)
      else if length matches > 1
      then (hd (sort_newest_first E matches), emit (Console (MultipleMatching cn)) s)
      else (JObj [], s))"

definition findCollectionByName :: "env \<Rightarrow> string \<Rightarrow> state \<Rightarrow> json \<times> state" where
  "findCollectionByName E cn s =
     (case send E Get s of
        (Rejected msg payload, s') \<Rightarrow> (JStr msg, emit (Console (ListError payload)) s')
      | (Fulfilled d, s') \<Rightarrow>
          (case d of
             JNull \<Rightarrow> caught E NoData s'
           | _ \<Rightarrow>
               (case get_prop d ''collections'' of
                  None \<Rightarrow> (JObj [], s')
                | Some cs \<Rightarrow>
                    if \<not> truthy cs then (JObj [], s')
                    else (case cs of
                            JArr items \<Rightarrow>
                              (case filter_matches cn items of
                                 Inl e \<Rightarrow> caught E NameNotAString s'
                               | Inr matches \<Rightarrow> pick_match E cn matches s')
                          | _ \<Rightarrow> caught E NotAnArray s'))))"

subsection \<open>The cache\<close>

text \<open>
  The \<^verbatim>\<open>try\<close> around \<^verbatim>\<open>JSON.parse(fs.readFileSync(...))\<close>: \<^verbatim>\<open>portmanCache\<close> keeps its
  initial \<^verbatim>\<open>{}\<close> when either call throws.
\<close>

definition read_and_parse :: "state \<Rightarrow> exn + cache_doc" where
  "read_and_parse s =
     (case portmanCacheFile s of
        Absent \<Rightarrow> Inl IOError
      | Malformed \<Rightarrow> Inl SyntaxError
      | Document d \<Rightarrow> Inr d)"

definition load :: "state \<Rightarrow> cache_doc \<times> state" where
  "load s =
     (case read_and_parse s of
        Inl e \<Rightarrow> (DObject [], emit (ReadCache (DObject [])) s)
      | Inr d \<Rightarrow> (d, emit (ReadCache d) s))"

text \<open>
  The own property of a cache document under a key: the entry the document holds. Any
  property read on \<^verbatim>\<open>null\<close> throws a TypeError.
\<close>

definition lookup :: "cache_doc \<Rightarrow> string \<Rightarrow> exn + json option" where
  "lookup c k =
     (case c of
        DNull \<Rightarrow> Inl TypeError
      | DObject kvs \<Rightarrow> Inr (map_of kvs k)
      | _ \<Rightarrow> Inr None)"

text \<open>
  \<^verbatim>\<open>portmanCache[collName]\<close> follows the prototype chain: where the document has no own
  property of that name, the read finds the member of that name of
  \<^verbatim>\<open>Object.prototype\<close> (for a number, of \<^verbatim>\<open>Number.prototype\<close> first; those of
  \<^verbatim>\<open>Boolean.prototype\<close> are all named like members of \<^verbatim>\<open>Object.prototype\<close>). Such a member
  is a function, or for \<^verbatim>\<open>__proto__\<close> the prototype itself: it is truthy and has no
  \<^verbatim>\<open>uid\<close>, which is all the code reads of it.
\<close>

datatype member = Own json | Builtin

definition object_prototype_names :: "string list" where
  "object_prototype_names =
     [''constructor'', ''__defineGetter__'', ''__defineSetter__'', ''hasOwnProperty'',
      ''__lookupGetter__'', ''__lookupSetter__'', ''isPrototypeOf'', ''propertyIsEnumerable'',
      ''toString'', ''valueOf'', ''__proto__'', ''toLocaleString'']"

definition number_prototype_names :: "string list" where
  "number_prototype_names = [''toExponential'', ''toFixed'', ''toPrecision'']"

definition builtin_member :: "cache_doc \<Rightarrow> string \<Rightarrow> bool" where
  "builtin_member c k =
     (case c of
        DNull \<Rightarrow> False
      | DNum n \<Rightarrow> k \<in> set (number_prototype_names @ object_prototype_names)
      | _ \<Rightarrow> k \<in> set object_prototype_names)"

definition subscript :: "cache_doc \<Rightarrow> string \<Rightarrow> exn + member option" where
  "subscript c k =
     (case lookup c k of
        Inl e \<Rightarrow> Inl e
      | Inr (Some v) \<Rightarrow> Inr (Some (Own v))
      | Inr None \<Rightarrow> Inr (if builtin_member c k then Some Builtin else None))"

definition truthy_member :: "member option \<Rightarrow> bool" where
  "truthy_member m =
     (case m of
        None \<Rightarrow> False
      | Some (Own v) \<Rightarrow> truthy v
      | Some Builtin \<Rightarrow> True)"

text \<open>\<^verbatim>\<open>delete portmanCache[collName]\<close>, reached only after the read returned.\<close>

definition remove :: "cache_doc \<Rightarrow> string \<Rightarrow> cache_doc" where
  "remove c k = (case c of DObject kvs \<Rightarrow> DObject (AList.delete k kvs) | _ \<Rightarrow> c)"

text \<open>
  \<^verbatim>\<open>{ name: collName, uid: data?.collection?.uid }\<close> as \<^verbatim>\<open>JSON.stringify\<close> writes it: without
  the \<^verbatim>\<open>uid\<close> when that is \<^verbatim>\<open>undefined\<close>.
\<close>

definition cache_entry :: "string \<Rightarrow> json option \<Rightarrow> json" where
  "cache_entry cn d =
     JObj ((''name'', JStr cn) #
           (case opt_prop (opt_prop d ''collection'') ''uid'' of
              None \<Rightarrow> []
            | Some u \<Rightarrow> [(''uid'', u)]))"

text \<open>
  The order of the own properties of an object: the keys that are array indices (the
  decimal numerals below \<open>2\<^sup>3\<^sup>2 - 1\<close> without a leading zero) come first, in
  ascending order, then the other keys in the order of their creation. \<open>set_own\<close> is an
  assignment that creates or overwrites an own property.
\<close>

definition is_digit :: "char \<Rightarrow> bool" where
  "is_digit c = (48 \<le> (of_char c :: nat) \<and> (of_char c :: nat) \<le> 57)"

definition decimal :: "string \<Rightarrow> int" where
  "decimal s = foldl (\<lambda>a c. 10 * a + ((of_char c :: int) - 48)) 0 s"

definition array_index :: "string \<Rightarrow> int option" where
  "array_index s =
     (if s \<noteq> [] \<and> list_all is_digit s \<and> (s = ''0'' \<or> hd s \<noteq> CHR ''0'')
         \<and> decimal s < 4294967295
      then Some (decimal s) else None)"

fun insert_index :: "int \<Rightarrow> string \<Rightarrow> json \<Rightarrow> (string \<times> json) list \<Rightarrow> (string \<times> json) list" where
  "insert_index n k v [] = [(k, v)]"
| "insert_index n k v ((k', v') # kvs) =
     (case array_index k' of
        None \<Rightarrow> (k, v) # (k', v') # kvs
      | Some m \<Rightarrow>
          if m < n then (k', v') # insert_index n k v kvs
          else (k, v) # (k', v') # kvs)"

definition set_own :: "string \<Rightarrow> json \<Rightarrow> (string \<times> json) list \<Rightarrow> (string \<times> json) list" where
  "set_own k v kvs =
     (if map_of kvs k \<noteq> None then AList.update k v kvs
      else (case array_index k of
              None \<Rightarrow> kvs @ [(k, v)]
            | Some n \<Rightarrow> insert_index n k v kvs))"

text \<open>
  \<^verbatim>\<open>Object.assign({}, portmanCache, { [collName]: entry })\<close> assigns to the new object
  each own property of the cache and then the entry. An assignment to \<^verbatim>\<open>__proto__\<close> runs
  the setter inherited from \<^verbatim>\<open>Object.prototype\<close>, which stores no property and makes an
  object or \<^verbatim>\<open>null\<close> the prototype of the new object. So an own \<^verbatim>\<open>__proto__\<close> of the
  cache is never copied, and an entry named \<^verbatim>\<open>__proto__\<close> is stored only when the setter
  is out of reach by then: the prototype has become \<^verbatim>\<open>null\<close>, or an object with an own
  \<^verbatim>\<open>__proto__\<close>.
\<close>

definition setter_inherited :: "(string \<times> json) list \<Rightarrow> bool" where
  "setter_inherited kvs =
     (case map_of kvs ''__proto__'' of
        None \<Rightarrow> True
      | Some JNull \<Rightarrow> False
      | Some (JObj p) \<Rightarrow> map_of p ''__proto__'' = None
      | Some _ \<Rightarrow> True)"

definition assign_entry :: "(string \<times> json) list \<Rightarrow> string \<Rightarrow> json \<Rightarrow> (string \<times> json) list" where
  "assign_entry kvs k v =
     (if k = ''__proto__'' \<and> setter_inherited kvs
      then filter (\<lambda>kv. fst kv \<noteq> ''__proto__'') kvs
      else set_own k v (filter (\<lambda>kv. fst kv \<noteq> ''__proto__'') kvs))"

definition put :: "cache_doc \<Rightarrow> string \<Rightarrow> json \<Rightarrow> cache_doc" where
  "put c k v =
     (case c of
        DObject kvs \<Rightarrow> DObject (assign_entry kvs k v)
      | _ \<Rightarrow> DObject (assign_entry [] k v))"

text \<open>
  The \<^verbatim>\<open>try\<close> around \<^verbatim>\<open>fs.writeFileSync\<close>: a write that throws leaves the file as it was,
  and the \<^verbatim>\<open>catch\<close> is empty.
\<close>

definition save :: "env \<Rightarrow> cache_doc \<Rightarrow> state \<Rightarrow> state" where
  "save E c s =
     (if write_ok E (length (trace s))
      then emit (WriteCache c True) (s\<lparr>portmanCacheFile := Document c\<rparr>)
      else emit (WriteCache c False) s)"

subsection \<open>Portman.syncCollectionToPostman\<close>

text \<open>
  \<^verbatim>\<open>'='.repeat(process.stdout.columns - 80)\<close>, the function's first statement after the
  destructuring: a negative count throws a RangeError, and \<^verbatim>\<open>undefined - 80\<close> is NaN,
  which \<^verbatim>\<open>repeat\<close> reads as zero. The result is the length of the line.
\<close>

definition consoleLine :: "env \<Rightarrow> exn + nat" where
  "consoleLine E =
     (case columns E of
        None \<Rightarrow> Inr 0
      | Some c \<Rightarrow> if c - 80 < 0 then Inl RangeError else Inr (nat (c - 80)))"

text \<open>\<^verbatim>\<open>if (postmanUid)\<close>: the option is set, and not to the empty string.\<close>

definition pinned_uid :: "portman \<Rightarrow> string option" where
  "pinned_uid P =
     (case postmanUid P of
        None \<Rightarrow> None
      | Some u \<Rightarrow> if u \<noteq> [] then Some u else None)"

text \<open>
  Identity resolution: the cache entry when it is truthy, else the answer of
  \<^verbatim>\<open>findCollectionByName\<close>.
\<close>

definition listed :: "env \<Rightarrow> string \<Rightarrow> state \<Rightarrow> member \<times> state" where
  "listed E cn s = (case findCollectionByName E cn s of (r, s') \<Rightarrow> (Own r, s'))"

definition resolve :: "env \<Rightarrow> string \<Rightarrow> cache_doc \<Rightarrow> state \<Rightarrow> exn + (member \<times> state)" where
  "resolve E cn cache s =
     (case subscript cache cn of
        Inl e \<Rightarrow> Inl e
      | Inr None \<Rightarrow> Inr (listed E cn s)
      | Inr (Some m) \<Rightarrow>
          if truthy_member (Some m) then Inr (m, s)
          else Inr (listed E cn s))"

text \<open>\<^verbatim>\<open>remoteCollection?.uid\<close> when it is truthy.\<close>

definition uid_of :: "member \<Rightarrow> json option" where
  "uid_of rc =
     (case rc of
        Builtin \<Rightarrow> None
      | Own j \<Rightarrow>
          (case opt_prop (Some j) ''uid'' of
             None \<Rightarrow> None
           | Some u \<Rightarrow> if truthy u then Some u else None))"

text \<open>
  The two branches of \<^verbatim>\<open>if (remoteCollection?.uid)\<close>, up to the recursive call. The
  result is the parsed \<^verbatim>\<open>respData\<close>, whether the function restarts itself, and the state.
\<close>

definition reconcile ::
  "env \<Rightarrow> portman \<Rightarrow> cache_doc \<Rightarrow> member \<Rightarrow> state \<Rightarrow> response \<times> bool \<times> state" where
  "reconcile E P cache rc s =
     (case uid_of rc of
        Some u \<Rightarrow>
          (case updateCollection E (portmanCollection P) u s of
             (resp, s1) \<Rightarrow>
               (resp, status resp = Fail,
                save E (if status resp = Fail then remove cache (collName P)
                        else put cache (collName P) (cache_entry (collName P) (data resp))) s1))
      | None \<Rightarrow>
          (case createCollection E (portmanCollection P) s of
             (resp, s1) \<Rightarrow>
               (resp, False,
                if status resp = Success
                then save E (put cache (collName P) (cache_entry (collName P) (data resp)))
                       (emit (Console (CreateData (data resp))) s1)
                else emit (Console (CreateData (data resp))) s1)))"

text \<open>The branch \<^verbatim>\<open>if (!postmanUid)\<close>, up to the recursive call.\<close>

definition cache_path :: "env \<Rightarrow> portman \<Rightarrow> state \<Rightarrow> exn + (response \<times> bool \<times> state)" where
  "cache_path E P s =
     (case load s of
        (cache, s1) \<Rightarrow>
          (case resolve E (collName P) cache s1 of
             Inl e \<Rightarrow> Inl e
           | Inr (rc, s2) \<Rightarrow> Inr (reconcile E P cache rc s2)))"

text \<open>The console output that ends the function, from the parsed \<^verbatim>\<open>respData\<close>.\<close>

definition report :: "string \<Rightarrow> response \<Rightarrow> state \<Rightarrow> state" where
  "report collUid resp s =
     (if status resp = Success
      then emit (Console (ReportSuccess
                   (opt_prop (opt_prop (data resp) ''collection'') ''name'')
                   (opt_prop (opt_prop (data resp) ''collection'') ''uid''))) s
      else emit (Console (ReportFail collUid (opt_prop (data resp) ''error''))) s)"

text \<open>
  The whole function. It calls itself after a failed update, with no counter, so it need
  not return: the result is \<open>None\<close> when it does not, \<open>Some (Inl e)\<close> when it throws
  \<open>e\<close>, and \<open>Some (Inr s')\<close> when it returns in state \<open>s'\<close>. After the inner call has
  returned, the outer one still prints its own report.
\<close>

partial_function (option) syncCollectionToPostman ::
  "env \<Rightarrow> portman \<Rightarrow> state \<Rightarrow> (exn + state) option" where
  "syncCollectionToPostman E P s =
     (case consoleLine E of
        Inl e \<Rightarrow> Some (Inl e)
      | Inr n \<Rightarrow>
          if \<not> syncPostman P then Some (Inr s)
          else (case pinned_uid P of
                  Some u \<Rightarrow>
                    (case updateCollection E (portmanCollection P) (JStr u) s of
                       (resp, s1) \<Rightarrow> Some (Inr (report u resp s1)))
                | None \<Rightarrow>
                    (case cache_path E P s of
                       Inl e \<Rightarrow> Some (Inl e)
                     | Inr (resp, restart, s1) \<Rightarrow>
                         if restart
                         then Option.bind (syncCollectionToPostman E P s1)
                                (\<lambda>r. case r of
                                        Inl e \<Rightarrow> Some (Inl e)
                                      | Inr s2 \<Rightarrow> Some (Inr (report (collName P) resp s2)))
                         else Some (Inr (report (collName P) resp s1)))))"

declare syncCollectionToPostman.simps [code]

subsection \<open>Reading a trace\<close>

fun is_read :: "event \<Rightarrow> bool" where
  "is_read (ReadCache c) = True"
| "is_read _ = False"

fun is_write :: "event \<Rightarrow> bool" where
  "is_write (WriteCache c ok) = True"
| "is_write _ = False"

fun is_update :: "event \<Rightarrow> bool" where
  "is_update (Request (Put u c) res) = True"
| "is_update _ = False"

fun is_failed_update :: "event \<Rightarrow> bool" where
  "is_failed_update (Request (Put u c) (Rejected msg payload)) = True"
| "is_failed_update _ = False"

fun is_created :: "event \<Rightarrow> bool" where
  "is_created (Request (Post c) (Fulfilled d)) = True"
| "is_created _ = False"

fun is_list :: "event \<Rightarrow> bool" where
  "is_list (Request Get res) = True"
| "is_list _ = False"

text \<open>
  \<open>removal_follows cn es\<close>: every failed update in \<open>es\<close> is followed at once by a write
  of a cache that has no entry under \<open>cn\<close>, and then by a new read of the cache file.
\<close>

fun removal_follows :: "string \<Rightarrow> event list \<Rightarrow> bool" where
  "removal_follows cn [] = True"
| "removal_follows cn (Request (Put u c) (Rejected msg payload) # es) =
     ((case es of
         WriteCache doc ok # ReadCache d # rest \<Rightarrow> lookup doc cn = Inr None
       | _ \<Rightarrow> False)
      \<and> removal_follows cn es)"
| "removal_follows cn (e # es) = removal_follows cn es"

text \<open>The requests of a trace, in the order they were sent.\<close>

fun requests :: "event list \<Rightarrow> request list" where
  "requests [] = []"
| "requests (Request r res # es) = r # requests es"
| "requests (e # es) = requests es"

text \<open>The events a run added to the trace it started with.\<close>

definition added :: "state \<Rightarrow> state \<Rightarrow> event list" where
  "added s s' = drop (length (trace s)) (trace s')"

subsection \<open>Concrete scenarios\<close>

text \<open>The artifact of the specification's scenarios, and the same with a pinned target.\<close>

definition billing :: portman where
  "billing =
     \<lparr>collName = ''Billing API'',
      portmanCollection = JObj [(''info'', JObj [(''name'', JStr ''Billing API'')])],
      syncPostman = True,
      postmanUid = None\<rparr>"

definition billing_pinned :: portman where
  "billing_pinned = billing\<lparr>postmanUid := Some ''pinned''\<rparr>"

definition summary :: "string \<Rightarrow> string \<Rightarrow> int \<Rightarrow> json" where
  "summary uid nm t = JObj [(''uid'', JStr uid), (''name'', JStr nm), (''updatedAt'', JNum t)]"

definition uploaded :: "json \<Rightarrow> json" where
  "uploaded u = JObj [(''collection'', JObj [(''name'', JStr ''Billing API''), (''uid'', u)])]"

definition not_found :: axios_result where
  "not_found =
     Rejected ''Error: Request failed with status code 404''
       (Some (JObj [(''error'', JObj [(''name'', JStr ''instanceNotFoundError'')])]))"

definition network_error :: axios_result where
  "network_error = Rejected ''Error: Network Error'' None"

text \<open>Cache files: one entry for the artifact under the identifier \<^verbatim>\<open>abc\<close>; no entry.\<close>

definition warm :: state where
  "warm =
     \<lparr>portmanCacheFile =
        Document (DObject [(''Billing API'',
          JObj [(''name'', JStr ''Billing API''), (''uid'', JStr ''abc'')])]),
      trace = []\<rparr>"

definition cold :: state where
  "cold = \<lparr>portmanCacheFile = Document (DObject []), trace = []\<rparr>"


definition missing :: state where
  "missing = \<lparr>portmanCacheFile = Absent, trace = []\<rparr>"

text \<open>
  A service that answers every request, and lists two collections whose names match
  \<^verbatim>\<open>Billing API\<close> and one that does not.
\<close>

definition healthy :: env where
  "healthy =
     \<lparr>axios = (\<lambda>t r. case r of
                 Post c \<Rightarrow> Fulfilled (uploaded (JStr ''new''))
               | Put u c \<Rightarrow> Fulfilled (uploaded u)
               | Get \<Rightarrow> Fulfilled (JObj [(''collections'',
                          JArr [summary ''old'' ''billing api'' 100,
                                summary ''other'' ''Shipping API'' 300,
                                summary ''def'' ''Billing  API'' 200])])),
      write_ok = (\<lambda>t. True),
      columns = Some 120,
      dateValue = (\<lambda>v. case v of Some (JNum n) \<Rightarrow> Some n | _ \<Rightarrow> None),
      impl_sort = (\<lambda>ms. ms),
      error_text = (\<lambda>f. ''TypeError'')\<rparr>"

text \<open>A service that cannot be reached: every request ends in a network error.\<close>

definition unreachable :: env where
  "unreachable = healthy\<lparr>axios := (\<lambda>t r. network_error)\<rparr>"

text \<open>
  A service that rejects every update sent before the trace has nine events, accepts the
  later ones, and lists one collection named like the artifact.
\<close>

definition flaky :: env where
  "flaky =
     healthy\<lparr>axios := (\<lambda>t r. case r of
                 Post c \<Rightarrow> network_error
               | Put u c \<Rightarrow> if t < 9 then not_found else Fulfilled (uploaded u)
               | Get \<Rightarrow> Fulfilled (JObj [(''collections'',
                          JArr [summary ''def'' ''billing api'' 100])]))\<rparr>"

text \<open>A service that rejects every update and keeps listing the collection.\<close>

definition rejecting :: env where
  "rejecting =
     healthy\<lparr>axios := (\<lambda>t r. case r of
                 Post c \<Rightarrow> network_error
               | Put u c \<Rightarrow> not_found
               | Get \<Rightarrow> Fulfilled (JObj [(''collections'',
                          JArr [summary ''def'' ''billing api'' 100])]))\<rparr>"

text \<open>
  The states in which three runs end: the artifact against the flaky service from the
  warm cache, and against the unreachable service from the warm and from the empty cache.
\<close>

definition warm_entry :: "string \<Rightarrow> cache_doc" where
  "warm_entry uid =
     DObject [(''Billing API'', JObj [(''name'', JStr ''Billing API''), (''uid'', JStr uid)])]"

definition listed_def :: axios_result where
  "listed_def = Fulfilled (JObj [(''collections'', JArr [summary ''def'' ''billing api'' 100])])"

definition flaky_end :: state where
  "flaky_end =
     \<lparr>portmanCacheFile = Document (warm_entry ''def''),
      trace =
        [ReadCache (warm_entry ''abc''),
         Request (Put (JStr ''abc'') (portmanCollection billing)) not_found,
         WriteCache (DObject []) True,
         ReadCache (DObject []),
         Request Get listed_def,
         Request (Put (JStr ''def'') (portmanCollection billing)) not_found,
         WriteCache (DObject []) True,
         ReadCache (DObject []),
         Request Get listed_def,
         Request (Put (JStr ''def'') (portmanCollection billing)) (Fulfilled (uploaded (JStr ''def''))),
         WriteCache (warm_entry ''def'') True,
         Console (ReportSuccess (Some (JStr ''Billing API'')) (Some (JStr ''def''))),
         Console (ReportFail ''Billing API'' (Some (JObj [(''name'', JStr ''instanceNotFoundError'')]))),
         Console (ReportFail ''Billing API'' (Some (JObj [(''name'', JStr ''instanceNotFoundError'')])))]\<rparr>"


definition unreachable_cold_end :: state where
  "unreachable_cold_end =
     \<lparr>portmanCacheFile = Document (DObject []),
      trace =
        [ReadCache (DObject []),
         Request Get network_error,
         Console (ListError None),
         Request (Post (portmanCollection billing)) network_error,
         Console (CreateData None),
         Console (ReportFail ''Billing API'' None)]\<rparr>"



text \<open>What of a state can be observed: the trace, and the cache a reader of the file gets.\<close>

definition observed :: "state \<Rightarrow> event list \<times> cache_doc" where
  "observed s = (trace s, fst (load s))"

section \<open>Properties\<close>

subsection \<open>Basic facts\<close>

lemma trace_emit [simp]: "trace (emit e s) = trace s @ [e]"
  by (simp add: emit_def)

lemma file_emit [simp]: "portmanCacheFile (emit e s) = portmanCacheFile s"
  by (simp add: emit_def)

lemma trace_save [simp]:
  "trace (save E c s) = trace s @ [WriteCache c (write_ok E (length (trace s)))]"
  by (simp add: save_def)

lemma file_save [simp]:
  "portmanCacheFile (save E c s) =
     (if write_ok E (length (trace s)) then Document c else portmanCacheFile s)"
  by (simp add: save_def)

text \<open>
  Induction over a run of \<open>syncCollectionToPostman\<close> that returns or throws: one case for
  each way through the body, with the hypothesis for the inner call.
\<close>

lemma syncCollectionToPostman_induct [consumes 1, case_names range_error off pinned lookup_error finished restart_error restart]:
  assumes run: "syncCollectionToPostman E P s = Some r"
    and "\<And>s e. consoleLine E = Inl e \<Longrightarrow> Q s (Inl e)"
    and "\<And>s n. consoleLine E = Inr n \<Longrightarrow> \<not> syncPostman P \<Longrightarrow> Q s (Inr s)"
    and "\<And>s n u resp s1. consoleLine E = Inr n \<Longrightarrow> syncPostman P \<Longrightarrow> pinned_uid P = Some u \<Longrightarrow>
           updateCollection E (portmanCollection P) (JStr u) s = (resp, s1) \<Longrightarrow>
           Q s (Inr (report u resp s1))"
    and "\<And>s n e. consoleLine E = Inr n \<Longrightarrow> syncPostman P \<Longrightarrow> pinned_uid P = None \<Longrightarrow>
           cache_path E P s = Inl e \<Longrightarrow> Q s (Inl e)"
    and "\<And>s n resp s1. consoleLine E = Inr n \<Longrightarrow> syncPostman P \<Longrightarrow> pinned_uid P = None \<Longrightarrow>
           cache_path E P s = Inr (resp, False, s1) \<Longrightarrow> Q s (Inr (report (collName P) resp s1))"
    and "\<And>s n resp s1 e. consoleLine E = Inr n \<Longrightarrow> syncPostman P \<Longrightarrow> pinned_uid P = None \<Longrightarrow>
           cache_path E P s = Inr (resp, True, s1) \<Longrightarrow> Q s1 (Inl e) \<Longrightarrow> Q s (Inl e)"
    and "\<And>s n resp s1 s2. consoleLine E = Inr n \<Longrightarrow> syncPostman P \<Longrightarrow> pinned_uid P = None \<Longrightarrow>
           cache_path E P s = Inr (resp, True, s1) \<Longrightarrow> Q s1 (Inr s2) \<Longrightarrow>
           Q s (Inr (report (collName P) resp s2))"
  shows "Q s r"
proof -
  have "fst (fst ((E, P), s)) = E \<longrightarrow> snd (fst ((E, P), s)) = P \<longrightarrow> Q (snd ((E, P), s)) r"
  proof (rule syncCollectionToPostman.raw_induct
      [where Pa = "\<lambda>x y. fst (fst x) = E \<longrightarrow> snd (fst x) = P \<longrightarrow> Q (snd x) y", OF _ run])
    fix f E' P' s' r'
    assume IH: "\<And>a b c y. f a b c = Some y \<Longrightarrow>
                 fst (fst ((a, b), c)) = E \<longrightarrow> snd (fst ((a, b), c)) = P \<longrightarrow> Q (snd ((a, b), c)) y"
      and body: "(case consoleLine E' of
        Inl e \<Rightarrow> Some (Inl e)
      | Inr n \<Rightarrow>
          if \<not> syncPostman P' then Some (Inr s')
          else (case pinned_uid P' of
                  None \<Rightarrow>
                    (case cache_path E' P' s' of
                       Inl e \<Rightarrow> Some (Inl e)
                     | Inr (resp, restart, s1) \<Rightarrow>
                         if restart
                         then Option.bind (f E' P' s1)
                                (\<lambda>r. case r of
                                        Inl e \<Rightarrow> Some (Inl e)
                                      | Inr s2 \<Rightarrow> Some (Inr (report (collName P') resp s2)))
                         else Some (Inr (report (collName P') resp s1)))
                | Some u \<Rightarrow>
                    (case updateCollection E' (portmanCollection P') (JStr u) s' of
                       (resp, s1) \<Rightarrow> Some (Inr (report u resp s1))))) = Some r'"
    show "fst (fst ((E', P'), s')) = E \<longrightarrow> snd (fst ((E', P'), s')) = P \<longrightarrow> Q (snd ((E', P'), s')) r'"
    proof (intro impI)
      assume "fst (fst ((E', P'), s')) = E" "snd (fst ((E', P'), s')) = P"
      then have [simp]: "E' = E" "P' = P" by simp_all
      from IH have IH': "\<And>s y. f E P s = Some y \<Longrightarrow> Q s y" by simp
      show "Q (snd ((E', P'), s')) r'"
        using body assms(2-) IH'
        by (auto split: sum.splits if_splits option.splits prod.splits bind_splits)
    qed
  qed
  then show ?thesis by simp
qed


lemma send_eq:
  "send E r s = (axios E (length (trace s)) r, emit (Request r (axios E (length (trace s)) r)) s)"
  by (simp add: send_def Let_def)

lemma updateCollection_eq:
  "updateCollection E c u s =
     ((case axios E (length (trace s)) (Put u c) of
         Fulfilled d \<Rightarrow> \<lparr>status = Success, data = Some d\<rparr>
       | Rejected msg payload \<Rightarrow> \<lparr>status = Fail, data = payload\<rparr>),
      emit (Request (Put u c) (axios E (length (trace s)) (Put u c))) s)"
  by (simp add: updateCollection_def send_eq split: axios_result.splits)

lemma createCollection_eq:
  "createCollection E c s =
     ((case axios E (length (trace s)) (Post c) of
         Fulfilled d \<Rightarrow> \<lparr>status = Success, data = Some d\<rparr>
       | Rejected msg payload \<Rightarrow> \<lparr>status = Fail, data = payload\<rparr>),
      emit (Request (Post c) (axios E (length (trace s)) (Post c))) s)"
  by (simp add: createCollection_def send_eq split: axios_result.splits)

subsection \<open>The operator's override\<close>

text \<open>
  Claim C4. When a target identifier is given (\<^verbatim>\<open>postmanUid\<close> is set, and not to the empty
  string), the run consists of one update request against that identifier followed by
  the report, success or failure, of that request's outcome. It returns, whatever the
  cache file holds; the cache file is neither read nor written: the final state is the
  initial one with these two events added to the trace.
\<close>

theorem override_isolation:
  assumes "consoleLine E = Inr n" and "syncPostman P" and "postmanUid P = Some u" and "u \<noteq> []"
  shows "syncCollectionToPostman E P s =
     Some (Inr (s\<lparr>trace := trace s @
        [Request (Put (JStr u) (portmanCollection P))
           (axios E (length (trace s)) (Put (JStr u) (portmanCollection P))),
         Console (case axios E (length (trace s)) (Put (JStr u) (portmanCollection P)) of
                    Fulfilled d \<Rightarrow>
                      ReportSuccess (opt_prop (opt_prop (Some d) ''collection'') ''name'')
                                    (opt_prop (opt_prop (Some d) ''collection'') ''uid'')
                  | Rejected msg payload \<Rightarrow> ReportFail u (opt_prop payload ''error''))]\<rparr>))"
  using assms
  by (simp add: syncCollectionToPostman.simps pinned_uid_def updateCollection_eq report_def emit_def
      split: axios_result.splits)

theorem override_isolation_witness:
  "syncCollectionToPostman healthy billing_pinned warm =
     Some (Inr (warm\<lparr>trace :=
        [Request (Put (JStr ''pinned'') (portmanCollection billing_pinned))
           (Fulfilled (uploaded (JStr ''pinned''))),
         Console (ReportSuccess (Some (JStr ''Billing API'')) (Some (JStr ''pinned'')))]\<rparr>))"
proof -
  have line: "consoleLine healthy = Inr 40"
    by (simp add: consoleLine_def healthy_def)
  have on: "syncPostman billing_pinned"
    by (simp add: billing_pinned_def billing_def)
  have uid: "postmanUid billing_pinned = Some ''pinned''"
    by (simp add: billing_pinned_def)
  have answer: "axios healthy 0 (Put (JStr ''pinned'') (portmanCollection billing_pinned)) =
      Fulfilled (uploaded (JStr ''pinned''))"
    by (simp add: healthy_def)
  have start: "trace warm = []"
    by (simp add: warm_def)
  show ?thesis
    using override_isolation [OF line on uid, of warm]
    by (simp add: answer start uploaded_def opt_prop_def)
qed

subsection \<open>One pass of the cache-assisted path\<close>

lemma added_self [simp]: "added s s = []"
  by (simp add: added_def)

lemma added_append: "trace s' = trace s @ evs \<Longrightarrow> added s s' = evs"
  by (simp add: added_def)

lemma requests_append [simp]: "requests (xs @ ys) = requests xs @ requests ys"
  by (induction xs rule: requests.induct) simp_all

lemma load_eq:
  "load s = (fst (load s), emit (ReadCache (fst (load s))) s)"
  by (simp add: load_def split: sum.splits)

lemma reconcile_update_failed:
  assumes "uid_of rc = Some u"
    and "axios E (length (trace s)) (Put u (portmanCollection P)) = Rejected msg payload"
  shows "reconcile E P c rc s =
     (\<lparr>status = Fail, data = payload\<rparr>, True,
      save E (remove c (collName P))
        (emit (Request (Put u (portmanCollection P)) (Rejected msg payload)) s))"
  using assms by (simp add: reconcile_def updateCollection_eq)

lemma reconcile_update_done:
  assumes "uid_of rc = Some u"
    and "axios E (length (trace s)) (Put u (portmanCollection P)) = Fulfilled d"
  shows "reconcile E P c rc s =
     (\<lparr>status = Success, data = Some d\<rparr>, False,
      save E (put c (collName P) (cache_entry (collName P) (Some d)))
        (emit (Request (Put u (portmanCollection P)) (Fulfilled d)) s))"
  using assms by (simp add: reconcile_def updateCollection_eq)

lemma reconcile_create_failed:
  assumes "uid_of rc = None"
    and "axios E (length (trace s)) (Post (portmanCollection P)) = Rejected msg payload"
  shows "reconcile E P c rc s =
     (\<lparr>status = Fail, data = payload\<rparr>, False,
      emit (Console (CreateData payload))
        (emit (Request (Post (portmanCollection P)) (Rejected msg payload)) s))"
  using assms by (simp add: reconcile_def createCollection_eq)

lemma reconcile_create_done:
  assumes "uid_of rc = None"
    and "axios E (length (trace s)) (Post (portmanCollection P)) = Fulfilled d"
  shows "reconcile E P c rc s =
     (\<lparr>status = Success, data = Some d\<rparr>, False,
      save E (put c (collName P) (cache_entry (collName P) (Some d)))
        (emit (Console (CreateData (Some d)))
          (emit (Request (Post (portmanCollection P)) (Fulfilled d)) s)))"
  using assms by (simp add: reconcile_def createCollection_eq)

lemma findCollectionByName_rejected:
  assumes "axios E (length (trace s)) Get = Rejected msg payload"
  shows "findCollectionByName E cn s =
     (JStr msg, emit (Console (ListError payload)) (emit (Request Get (Rejected msg payload)) s))"
  using assms by (simp add: findCollectionByName_def send_eq)

text \<open>What a listing adds to the trace: the request, then at most one console line.\<close>

lemma findCollectionByName_trace:
  "\<exists>msgs. trace (snd (findCollectionByName E cn s)) =
     trace s @ Request Get (axios E (length (trace s)) Get) # map Console msgs"
proof -
  have one: "\<exists>msgs. [Console m] = map Console msgs" for m
    by (rule exI [of _ "[m]"]) simp
  show ?thesis
    by (auto simp: findCollectionByName_def send_eq caught_def pick_match_def one
        split: axios_result.splits json.splits option.splits sum.splits)
qed

lemma findCollectionByName_file [simp]:
  "portmanCacheFile (snd (findCollectionByName E cn s)) = portmanCacheFile s"
  by (auto simp: findCollectionByName_def send_eq caught_def pick_match_def
      split: axios_result.splits json.splits option.splits sum.splits)


lemma snd_load [simp]: "snd (load s) = emit (ReadCache (fst (load s))) s"
  by (simp add: load_def split: sum.splits)

lemma cache_path_eq:
  "cache_path E P s =
     (case resolve E (collName P) (fst (load s)) (emit (ReadCache (fst (load s))) s) of
        Inl e \<Rightarrow> Inl e
      | Inr (rc, s2) \<Rightarrow> Inr (reconcile E P (fst (load s)) rc s2))"
  by (simp add: cache_path_def split_beta flip: snd_load)

lemma trace_report [simp]:
  "trace (report u resp s) =
     trace s @ [Console (if status resp = Success
                         then ReportSuccess (opt_prop (opt_prop (data resp) ''collection'') ''name'')
                                (opt_prop (opt_prop (data resp) ''collection'') ''uid'')
                         else ReportFail u (opt_prop (data resp) ''error''))]"
  by (simp add: report_def)

lemma file_report [simp]: "portmanCacheFile (report u resp s) = portmanCacheFile s"
  by (simp add: report_def)

lemma sync_finished:
  assumes "consoleLine E = Inr n" and "syncPostman P" and "pinned_uid P = None"
    and "cache_path E P s = Inr (resp, False, s1)"
  shows "syncCollectionToPostman E P s = Some (Inr (report (collName P) resp s1))"
  using assms by (subst syncCollectionToPostman.simps) simp

lemma sync_restart:
  assumes "consoleLine E = Inr n" and "syncPostman P" and "pinned_uid P = None"
    and "cache_path E P s = Inr (resp, True, s1)"
  shows "syncCollectionToPostman E P s =
     Option.bind (syncCollectionToPostman E P s1)
       (\<lambda>r. case r of
               Inl e \<Rightarrow> Some (Inl e)
             | Inr s2 \<Rightarrow> Some (Inr (report (collName P) resp s2)))"
  using assms by (subst syncCollectionToPostman.simps) simp

text \<open>The read of the cache under the collection's name, and identity resolution.\<close>

lemma subscript_not_null: "subscript c k = Inr m \<Longrightarrow> c \<noteq> DNull"
  by (auto simp: subscript_def lookup_def)

lemma subscript_throws: "subscript c k = Inl e \<Longrightarrow> c = DNull"
  by (cases c) (simp_all add: subscript_def lookup_def split: option.splits)




lemma resolve_hit:
  assumes "subscript c cn = Inr (Some m)" and "truthy_member (Some m)"
  shows "resolve E cn c s = Inr (m, s)"
  using assms by (simp add: resolve_def)

lemma resolve_miss:
  assumes "subscript c cn = Inr m" and "\<not> truthy_member m"
  shows "resolve E cn c s =
     Inr (Own (fst (findCollectionByName E cn s)), snd (findCollectionByName E cn s))"
  using assms by (cases m) (simp_all add: resolve_def listed_def split_beta)

lemma resolve_throws: "resolve E cn c s = Inl e \<longleftrightarrow> subscript c cn = Inl e"
  by (auto simp: resolve_def split: sum.splits option.splits)

subsection \<open>A listing that fails\<close>

text \<open>
  Claim C10. When the listing request itself fails, \<open>findCollectionByName\<close> neither
  throws nor reports a failure: it prints the error's payload and returns the error's
  text, a plain string, which has no \<^verbatim>\<open>uid\<close>. On a cache miss (the read
  \<^verbatim>\<open>portmanCache[collName]\<close> gives nothing truthy) the run then takes the branch for no
  match: its requests are the listing and one create, and it returns.
\<close>

lemma cold_miss: "subscript (fst (load cold)) (collName billing) = Inr None"
  by (simp add: subscript_def lookup_def builtin_member_def object_prototype_names_def
      load_def read_and_parse_def cold_def billing_def)

theorem listing_failure_leads_to_create:
  assumes "consoleLine E = Inr n" and "syncPostman P" and "pinned_uid P = None"
    and miss: "subscript (fst (load s)) (collName P) = Inr m" "\<not> truthy_member m"
    and rejected: "axios E (Suc (length (trace s))) Get = Rejected msg payload"
  shows "findCollectionByName E (collName P) (snd (load s)) =
           (JStr msg,
            emit (Console (ListError payload))
              (emit (Request Get (Rejected msg payload)) (snd (load s))))
       \<and> (\<exists>s'. syncCollectionToPostman E P s = Some (Inr s')
                \<and> requests (added s s') = [Get, Post (portmanCollection P)])"
proof -
  let ?s1 = "emit (ReadCache (fst (load s))) s"
  let ?s2 = "emit (Console (ListError payload)) (emit (Request Get (Rejected msg payload)) ?s1)"
  have found: "findCollectionByName E (collName P) ?s1 = (JStr msg, ?s2)"
    by (rule findCollectionByName_rejected) (simp add: rejected)
  have no_uid: "uid_of (Own (JStr msg)) = None"
    by (simp add: uid_of_def opt_prop_def)
  have res: "resolve E (collName P) (fst (load s)) ?s1 = Inr (Own (JStr msg), ?s2)"
    by (simp add: resolve_miss [OF miss] found)
  have "\<exists>s'. syncCollectionToPostman E P s = Some (Inr s')
          \<and> requests (added s s') = [Get, Post (portmanCollection P)]"
  proof (cases "axios E (length (trace ?s2)) (Post (portmanCollection P))")
    case (Fulfilled d)
    have "cache_path E P s = Inr (\<lparr>status = Success, data = Some d\<rparr>, False,
        save E (put (fst (load s)) (collName P) (cache_entry (collName P) (Some d)))
          (emit (Console (CreateData (Some d)))
            (emit (Request (Post (portmanCollection P)) (Fulfilled d)) ?s2)))"
      by (simp only: cache_path_eq res reconcile_create_done [OF no_uid Fulfilled] sum.case prod.case)
    from sync_finished [OF assms(1-3) this] show ?thesis
      by (simp add: added_def)
  next
    case (Rejected m p)
    have "cache_path E P s = Inr (\<lparr>status = Fail, data = p\<rparr>, False,
        emit (Console (CreateData p))
          (emit (Request (Post (portmanCollection P)) (Rejected m p)) ?s2))"
      by (simp only: cache_path_eq res reconcile_create_failed [OF no_uid Rejected] sum.case prod.case)
    from sync_finished [OF assms(1-3) this] show ?thesis
      by (simp add: added_def)
  qed
  with found show ?thesis by simp
qed

theorem listing_failure_leads_to_create_witness:
  "findCollectionByName unreachable (collName billing) (snd (load cold)) =
     (JStr ''Error: Network Error'',
      emit (Console (ListError None))
        (emit (Request Get (Rejected ''Error: Network Error'' None)) (snd (load cold))))
   \<and> (\<exists>s'. syncCollectionToPostman unreachable billing cold = Some (Inr s')
            \<and> requests (added cold s') = [Get, Post (portmanCollection billing)])"
proof -
  have line: "consoleLine unreachable = Inr 40"
    by (simp add: consoleLine_def unreachable_def healthy_def)
  have on: "syncPostman billing"
    by (simp add: billing_def)
  have free: "pinned_uid billing = None"
    by (simp add: pinned_uid_def billing_def)
  have miss: "subscript (fst (load cold)) (collName billing) = Inr None"
    by (simp add: cold_miss)
  have falsy: "\<not> truthy_member None"
    by (simp add: truthy_member_def)
  have rejected: "axios unreachable (Suc (length (trace cold))) Get = Rejected ''Error: Network Error'' None"
    by (simp add: unreachable_def network_error_def)
  show ?thesis
    using listing_failure_leads_to_create [OF line on free miss falsy rejected] .
qed

subsection \<open>Case analysis of a pass\<close>

text \<open>The four ways through \<open>reconcile\<close>.\<close>

lemma reconcile_cases [consumes 1, case_names update_failed update_done create_failed create_done]:
  assumes "reconcile E P c rc s = (resp, restart, s1)"
  obtains
    (update_failed) u msg payload where
      "uid_of rc = Some u"
      "axios E (length (trace s)) (Put u (portmanCollection P)) = Rejected msg payload"
      "resp = \<lparr>status = Fail, data = payload\<rparr>" "restart"
      "s1 = save E (remove c (collName P))
              (emit (Request (Put u (portmanCollection P)) (Rejected msg payload)) s)"
  | (update_done) u d where
      "uid_of rc = Some u"
      "axios E (length (trace s)) (Put u (portmanCollection P)) = Fulfilled d"
      "resp = \<lparr>status = Success, data = Some d\<rparr>" "\<not> restart"
      "s1 = save E (put c (collName P) (cache_entry (collName P) (Some d)))
              (emit (Request (Put u (portmanCollection P)) (Fulfilled d)) s)"
  | (create_failed) msg payload where
      "uid_of rc = None"
      "axios E (length (trace s)) (Post (portmanCollection P)) = Rejected msg payload"
      "resp = \<lparr>status = Fail, data = payload\<rparr>" "\<not> restart"
      "s1 = emit (Console (CreateData payload))
              (emit (Request (Post (portmanCollection P)) (Rejected msg payload)) s)"
  | (create_done) d where
      "uid_of rc = None"
      "axios E (length (trace s)) (Post (portmanCollection P)) = Fulfilled d"
      "resp = \<lparr>status = Success, data = Some d\<rparr>" "\<not> restart"
      "s1 = save E (put c (collName P) (cache_entry (collName P) (Some d)))
              (emit (Console (CreateData (Some d)))
                (emit (Request (Post (portmanCollection P)) (Fulfilled d)) s))"
proof (cases "uid_of rc")
  case None
  show ?thesis
  proof (cases "axios E (length (trace s)) (Post (portmanCollection P))")
    case (Fulfilled d)
    with assms None show ?thesis
      by (intro create_done [of d]) (simp_all add: reconcile_create_done [OF None Fulfilled])
  next
    case (Rejected msg payload)
    with assms None show ?thesis
      by (intro create_failed [of msg payload]) (simp_all add: reconcile_create_failed [OF None Rejected])
  qed
next
  case (Some u)
  show ?thesis
  proof (cases "axios E (length (trace s)) (Put u (portmanCollection P))")
    case (Fulfilled d)
    with assms Some show ?thesis
      by (intro update_done [of u d]) (simp_all add: reconcile_update_done [OF Some Fulfilled])
  next
    case (Rejected msg payload)
    with assms Some show ?thesis
      by (intro update_failed [of u msg payload]) (simp_all add: reconcile_update_failed [OF Some Rejected])
  qed
qed

text \<open>
  Identity resolution, then \<open>reconcile\<close>: on a hit nothing is sent; on a miss the listing
  is, and the cache file is not touched before \<open>reconcile\<close>.
\<close>

lemma cache_path_cases [consumes 1, case_names resolved]:
  assumes "cache_path E P s = Inr (resp, restart, s1)"
  obtains m rc s2 pre where
    "subscript (fst (load s)) (collName P) = Inr m"
    "trace s2 = trace s @ ReadCache (fst (load s)) # pre"
    "portmanCacheFile s2 = portmanCacheFile s"
    "truthy_member m \<Longrightarrow> pre = [] \<and> m = Some rc"
    "\<not> truthy_member m \<Longrightarrow>
       \<exists>msgs. pre = Request Get (axios E (Suc (length (trace s))) Get) # map Console msgs"
    "reconcile E P (fst (load s)) rc s2 = (resp, restart, s1)"
proof -
  let ?c = "fst (load s)" and ?s1 = "emit (ReadCache (fst (load s))) s"
  from assms obtain rc s2 where res: "resolve E (collName P) ?c ?s1 = Inr (rc, s2)"
    and rec: "reconcile E P ?c rc s2 = (resp, restart, s1)"
    by (auto simp: cache_path_eq split: sum.splits)
  from res obtain m where m: "subscript ?c (collName P) = Inr m"
    using resolve_throws [of E "collName P" ?c ?s1]
    by (cases "subscript ?c (collName P)") auto
  show ?thesis
  proof (cases "truthy_member m")
    case True
    then obtain x where x: "m = Some x"
      by (cases m) (simp_all add: truthy_member_def)
    from res resolve_hit [OF m [unfolded x] True [unfolded x], of E ?s1]
    have "rc = x" "s2 = ?s1"
      by simp_all
    with True m x rec show ?thesis
      by (intro that [of m s2 "[]" rc]) simp_all
  next
    case False
    from res resolve_miss [OF m False, of E ?s1]
    have s2: "s2 = snd (findCollectionByName E (collName P) ?s1)"
      by simp
    obtain msgs where "trace s2 =
        trace ?s1 @ Request Get (axios E (length (trace ?s1)) Get) # map Console msgs"
      unfolding s2 using findCollectionByName_trace [of E "collName P" ?s1] by blast
    with False m rec s2 show ?thesis
      by (intro that [of m s2 "Request Get (axios E (Suc (length (trace s))) Get) # map Console msgs" rc])
         auto
  qed
qed

lemma remove_not_null: "c \<noteq> DNull \<Longrightarrow> remove c k \<noteq> DNull"
  by (cases c) (simp_all add: remove_def)

lemma put_not_null [simp]: "put c k v \<noteq> DNull"
  by (cases c) (simp_all add: put_def)








lemma load_null: "fst (load s) = DNull \<longleftrightarrow> portmanCacheFile s = Document DNull"
  by (auto simp: load_def read_and_parse_def split: cache_file.splits)

lemma cache_path_throws:
  assumes "cache_path E P s = Inl e"
  shows "portmanCacheFile s = Document DNull"
proof -
  from assms have "resolve E (collName P) (fst (load s)) (emit (ReadCache (fst (load s))) s) = Inl e"
    by (auto simp: cache_path_eq split: sum.splits)
  then have "subscript (fst (load s)) (collName P) = Inl e"
    by (simp add: resolve_throws)
  then show ?thesis
    by (auto dest: subscript_throws simp: load_null)
qed

lemma cache_path_file_not_null:
  assumes "cache_path E P s = Inr (resp, restart, s1)"
  shows "portmanCacheFile s1 \<noteq> Document DNull"
  using assms
proof (cases rule: cache_path_cases)
  case (resolved m rc s2 pre)
  from resolved(1) have c: "fst (load s) \<noteq> DNull" and f: "portmanCacheFile s \<noteq> Document DNull"
    by (auto dest: subscript_not_null simp: load_null)
  from resolved(6) show ?thesis
    by (cases rule: reconcile_cases) (use c f resolved(3) in \<open>simp_all add: remove_not_null\<close>)
qed

text \<open>
  The only faults that leave the function are the RangeError of the console line and the
  TypeError of indexing a cache document that is \<^verbatim>\<open>null\<close>.
\<close>

lemma sync_no_exception:
  assumes "syncCollectionToPostman E P s = Some r"
    and "consoleLine E = Inr n" and "portmanCacheFile s \<noteq> Document DNull"
  shows "\<exists>s'. r = Inr s'"
  using assms
proof (induction rule: syncCollectionToPostman_induct)
  case (lookup_error s n e)
  then show ?case by (auto dest: cache_path_throws)
next
  case (restart_error s n resp s1 e)
  then show ?case by (auto dest: cache_path_file_not_null)
qed simp_all


lemma console_not_counted [simp]:
  "filter is_read (map Console msgs) = []"
  "filter is_write (map Console msgs) = []"
  "filter is_update (map Console msgs) = []"
  "filter is_failed_update (map Console msgs) = []"
  "filter is_created (map Console msgs) = []"
  "filter is_list (map Console msgs) = []"
  "requests (map Console msgs) = []"
  by (induction msgs) simp_all

text \<open>What \<open>reconcile\<close> adds to the trace, counted.\<close>

lemma reconcile_counts:
  assumes "reconcile E P c rc s = (resp, restart, s1)"
  shows "\<exists>evs. trace s1 = trace s @ evs
           \<and> filter is_read evs = [] \<and> filter is_list evs = []
           \<and> length (filter is_failed_update evs) = (if restart then 1 else 0)
           \<and> length (filter is_write evs) =
               length (filter is_update evs) + length (filter is_created evs)"
  using assms by (cases rule: reconcile_cases) simp_all

text \<open>What one pass adds to the trace, counted.\<close>

lemma cache_path_counts:
  assumes "cache_path E P s = Inr (resp, restart, s1)"
  shows "\<exists>m evs. subscript (fst (load s)) (collName P) = Inr m \<and> trace s1 = trace s @ evs
           \<and> length (filter is_read evs) = 1
           \<and> (filter is_list evs = [] \<longleftrightarrow> truthy_member m)
           \<and> length (filter is_failed_update evs) = (if restart then 1 else 0)
           \<and> length (filter is_write evs) =
               length (filter is_update evs) + length (filter is_created evs)"
  using assms
proof (cases rule: cache_path_cases)
  case (resolved m rc s2 pre)
  from reconcile_counts [OF resolved(6)] obtain evs where evs: "trace s1 = trace s2 @ evs"
    "filter is_read evs = []" "filter is_list evs = []"
    "length (filter is_failed_update evs) = (if restart then 1 else 0)"
    "length (filter is_write evs) = length (filter is_update evs) + length (filter is_created evs)"
    by blast
  show ?thesis
  proof (cases "truthy_member m")
    case True
    with resolved(4) have "pre = []" by simp
    with resolved(1,2) evs True show ?thesis
      by (intro exI [of _ m] exI [of _ "ReadCache (fst (load s)) # evs"]) simp
  next
    case False
    with resolved(5) obtain msgs where
      "pre = Request Get (axios E (Suc (length (trace s))) Get) # map Console msgs"
      by blast
    with resolved(1,2) evs False show ?thesis
      by (intro exI [of _ m] exI [of _ "ReadCache (fst (load s)) # pre @ evs"]) simp
  qed
qed


subsection \<open>The warm cache\<close>





subsection \<open>Failures of the remote service\<close>



subsection \<open>Several collections of the same name\<close>



lemma findCollectionByName_matches:
  assumes "axios E (length (trace s)) Get = Fulfilled d"
    and "get_prop d ''collections'' = Some (JArr items)"
    and "filter_matches cn items = Inr matches"
  shows "findCollectionByName E cn s = pick_match E cn matches (emit (Request Get (Fulfilled d)) s)"
proof -
  from assms(2) obtain kvs where "d = JObj kvs"
    by (cases d) simp_all
  with assms show ?thesis
    by (simp add: findCollectionByName_def send_eq)
qed



subsection \<open>Matching by name\<close>







subsection \<open>Restarting after a failed update\<close>

text \<open>Three runs, evaluated.\<close>

lemma flaky_run: "syncCollectionToPostman flaky billing warm = Some (Inr flaky_end)"
  by code_simp


lemma unreachable_cold_run:
  "syncCollectionToPostman unreachable billing cold = Some (Inr unreachable_cold_end)"
  by code_simp

text \<open>
  Counting over a whole run on the cache-assisted path: every pass reads the cache once,
  and every pass but the last ends in a failed update.
\<close>

lemma sync_counts:
  assumes "syncCollectionToPostman E P s = Some (Inr s')"
    and "syncPostman P" and "pinned_uid P = None"
  shows "\<exists>evs. trace s' = trace s @ evs
           \<and> length (filter is_read evs) = Suc (length (filter is_failed_update evs))
           \<and> length (filter is_write evs) =
               length (filter is_update evs) + length (filter is_created evs)"
proof -
  have "\<forall>s'. r = Inr s' \<longrightarrow> (\<exists>evs. trace s' = trace s @ evs
           \<and> length (filter is_read evs) = Suc (length (filter is_failed_update evs))
           \<and> length (filter is_write evs) =
               length (filter is_update evs) + length (filter is_created evs))"
    if "syncCollectionToPostman E P s = Some r" for r
    using that assms(2,3)
  proof (induction rule: syncCollectionToPostman_induct)
    case (finished s n resp s1)
    from cache_path_counts [OF finished(4)] obtain evs where evs: "trace s1 = trace s @ evs"
      "length (filter is_read evs) = 1" "length (filter is_failed_update evs) = 0"
      "length (filter is_write evs) = length (filter is_update evs) + length (filter is_created evs)"
      by auto
    let ?e = "Console (if status resp = Success
                         then ReportSuccess (opt_prop (opt_prop (data resp) ''collection'') ''name'')
                                (opt_prop (opt_prop (data resp) ''collection'') ''uid'')
                         else ReportFail (collName P) (opt_prop (data resp) ''error''))"
    have "trace (report (collName P) resp s1) = trace s @ (evs @ [?e])"
      by (simp add: evs(1))
    moreover have "length (filter is_read (evs @ [?e])) = Suc (length (filter is_failed_update (evs @ [?e])))"
      using evs(2,3) by simp
    moreover have "length (filter is_write (evs @ [?e])) =
        length (filter is_update (evs @ [?e])) + length (filter is_created (evs @ [?e]))"
      using evs(4) by simp
    ultimately show ?case by blast
  next
    case (restart s n resp s1 s2)
    from cache_path_counts [OF restart(4)] obtain evs where evs: "trace s1 = trace s @ evs"
      "length (filter is_read evs) = 1" "length (filter is_failed_update evs) = 1"
      "length (filter is_write evs) = length (filter is_update evs) + length (filter is_created evs)"
      by auto
    from restart.IH restart.prems obtain evs2 where evs2: "trace s2 = trace s1 @ evs2"
      "length (filter is_read evs2) = Suc (length (filter is_failed_update evs2))"
      "length (filter is_write evs2) = length (filter is_update evs2) + length (filter is_created evs2)"
      by auto
    let ?e = "Console (if status resp = Success
                         then ReportSuccess (opt_prop (opt_prop (data resp) ''collection'') ''name'')
                                (opt_prop (opt_prop (data resp) ''collection'') ''uid'')
                         else ReportFail (collName P) (opt_prop (data resp) ''error''))"
    have "trace (report (collName P) resp s2) = trace s @ (evs @ evs2 @ [?e])"
      by (simp add: evs(1) evs2(1))
    moreover have "length (filter is_read (evs @ evs2 @ [?e])) =
        Suc (length (filter is_failed_update (evs @ evs2 @ [?e])))"
      using evs(2,3) evs2(2) by simp
    moreover have "length (filter is_write (evs @ evs2 @ [?e])) =
        length (filter is_update (evs @ evs2 @ [?e])) + length (filter is_created (evs @ evs2 @ [?e]))"
      using evs(4) evs2(3) by simp
    ultimately show ?case by blast
  qed simp_all
  with assms(1) show ?thesis by blast
qed

lemma removal_follows_skip:
  "filter is_failed_update xs = [] \<Longrightarrow> removal_follows cn (xs @ ys) = removal_follows cn ys"
  by (induction cn xs rule: removal_follows.induct) simp_all

lemma removal_follows_append:
  "removal_follows cn xs \<Longrightarrow> removal_follows cn ys \<Longrightarrow> removal_follows cn (xs @ ys)"
  by (induction cn xs rule: removal_follows.induct)
     (auto split: list.splits event.splits)

lemma lookup_remove: "c \<noteq> DNull \<Longrightarrow> lookup (remove c k) k = Inr None"
  by (cases c) (simp_all add: lookup_def remove_def delete_conv')

text \<open>
  The shape of a pass: the read, then events without a failed update, and when the pass
  restarts, the failed update and the write of the cache without the entry.
\<close>

lemma cache_path_shape:
  assumes "cache_path E P s = Inr (resp, restart, s1)"
  shows "\<exists>pre. filter is_failed_update pre = [] \<and> fst (load s) \<noteq> DNull
           \<and> (if restart
               then \<exists>u msg payload ok. resp = \<lparr>status = Fail, data = payload\<rparr>
                      \<and> trace s1 = trace s @ ReadCache (fst (load s)) # pre @
                          [Request (Put u (portmanCollection P)) (Rejected msg payload),
                           WriteCache (remove (fst (load s)) (collName P)) ok]
               else trace s1 = trace s @ ReadCache (fst (load s)) # pre)"
  using assms
proof (cases rule: cache_path_cases)
  case (resolved m rc s2 pre)
  have pre: "filter is_failed_update pre = []"
    using resolved(4,5) by (cases "truthy_member m") auto
  have c: "fst (load s) \<noteq> DNull"
    using resolved(1) by (rule subscript_not_null)
  from resolved(6) show ?thesis
  proof (cases rule: reconcile_cases)
    case (update_failed u msg payload)
    with resolved(2) pre c show ?thesis
      by (intro exI [of _ pre]) auto
  next
    case (update_done u d)
    with resolved(2) pre c show ?thesis
      by (intro exI [of _ "pre @ [Request (Put u (portmanCollection P)) (Fulfilled d),
            WriteCache (put (fst (load s)) (collName P) (cache_entry (collName P) (Some d)))
              (write_ok E (Suc (length (trace s2))))]"]) simp
  next
    case (create_failed msg payload)
    with resolved(2) pre c show ?thesis
      by (intro exI [of _ "pre @ [Request (Post (portmanCollection P)) (Rejected msg payload),
            Console (CreateData payload)]"]) simp
  next
    case (create_done d)
    with resolved(2) pre c show ?thesis
      by (intro exI [of _ "pre @ [Request (Post (portmanCollection P)) (Fulfilled d),
            Console (CreateData (Some d)),
            WriteCache (put (fst (load s)) (collName P) (cache_entry (collName P) (Some d)))
              (write_ok E (Suc (Suc (length (trace s2)))))]"]) simp
  qed
qed

lemma sync_removal_follows:
  assumes "syncCollectionToPostman E P s = Some (Inr s')"
    and "syncPostman P" and "pinned_uid P = None"
  shows "\<exists>d evs. trace s' = trace s @ ReadCache d # evs
           \<and> removal_follows (collName P) (ReadCache d # evs)"
proof -
  have "\<forall>s'. r = Inr s' \<longrightarrow> (\<exists>d evs. trace s' = trace s @ ReadCache d # evs
           \<and> removal_follows (collName P) (ReadCache d # evs))"
    if "syncCollectionToPostman E P s = Some r" for r
    using that assms(2,3)
  proof (induction rule: syncCollectionToPostman_induct)
    case (finished s n resp s1)
    from cache_path_shape [OF finished(4)] obtain pre where pre: "filter is_failed_update pre = []"
      "trace s1 = trace s @ ReadCache (fst (load s)) # pre"
      by auto
    let ?e = "Console (if status resp = Success
                         then ReportSuccess (opt_prop (opt_prop (data resp) ''collection'') ''name'')
                                (opt_prop (opt_prop (data resp) ''collection'') ''uid'')
                         else ReportFail (collName P) (opt_prop (data resp) ''error''))"
    have "trace (report (collName P) resp s1) = trace s @ ReadCache (fst (load s)) # (pre @ [?e])"
      by (simp add: pre(2))
    moreover have "removal_follows (collName P) (ReadCache (fst (load s)) # (pre @ [?e]))"
      using pre(1) by (simp add: removal_follows_skip)
    ultimately show ?case by blast
  next
    case (restart s n resp s1 s2)
    let ?c = "fst (load s)"
    from cache_path_shape [OF restart(4)] obtain pre u msg payload ok where
      pre: "filter is_failed_update pre = []" and c: "?c \<noteq> DNull"
      and s1: "trace s1 = trace s @ ReadCache ?c # pre @
          [Request (Put u (portmanCollection P)) (Rejected msg payload),
           WriteCache (remove ?c (collName P)) ok]"
      by auto
    from restart.IH restart.prems obtain d evs where s2: "trace s2 = trace s1 @ ReadCache d # evs"
      and IH: "removal_follows (collName P) (ReadCache d # evs)"
      by auto
    let ?e = "Console (if status resp = Success
                         then ReportSuccess (opt_prop (opt_prop (data resp) ''collection'') ''name'')
                                (opt_prop (opt_prop (data resp) ''collection'') ''uid'')
                         else ReportFail (collName P) (opt_prop (data resp) ''error''))"
    let ?tail = "Request (Put u (portmanCollection P)) (Rejected msg payload) #
        WriteCache (remove ?c (collName P)) ok # (ReadCache d # evs) @ [?e]"
    have "trace (report (collName P) resp s2) = trace s @ ReadCache ?c # (pre @ ?tail)"
      by (simp add: s1 s2)
    moreover have "removal_follows (collName P) ((ReadCache d # evs) @ [?e])"
      using IH by (rule removal_follows_append) simp
    then have "removal_follows (collName P) ?tail"
      using c by (simp add: lookup_remove)
    then have "removal_follows (collName P) (ReadCache ?c # (pre @ ?tail))"
      using pre by (simp add: removal_follows_skip)
    ultimately show ?case by blast
  qed simp_all
  with assms(1) show ?thesis by blast
qed

text \<open>
  Claim C1, as amended. On the cache-assisted path the function restarts itself after
  every failed update, not only after the first. In a run that returns, every failed
  update is followed at once by the write of a cache without the entry for the
  collection's name and then by a new read of the cache file, and the run has entered
  identity resolution (read the cache) exactly once more than it has had failed updates.
  The code holds no counter, so nothing bounds the number of restarts.
\<close>

theorem restart_after_every_failed_update:
  assumes "syncCollectionToPostman E P s = Some (Inr s')"
    and "syncPostman P" and "pinned_uid P = None"
  shows "removal_follows (collName P) (added s s')
       \<and> length (filter is_read (added s s')) = Suc (length (filter is_failed_update (added s s')))"
  using sync_counts [OF assms] sync_removal_follows [OF assms] by (auto simp: added_def)

theorem restart_after_every_failed_update_witness:
  "syncCollectionToPostman flaky billing warm = Some (Inr flaky_end)
   \<and> removal_follows (collName billing) (added warm flaky_end)
   \<and> length (filter is_failed_update (added warm flaky_end)) = 2
   \<and> length (filter is_read (added warm flaky_end)) = 3"
proof -
  have on: "syncPostman billing"
    by (simp add: billing_def)
  have free: "pinned_uid billing = None"
    by (simp add: pinned_uid_def billing_def)
  have failed: "length (filter is_failed_update (added warm flaky_end)) = 2"
    by (simp add: added_def warm_def flaky_end_def not_found_def listed_def_def)
  show ?thesis
    using restart_after_every_failed_update [OF flaky_run on free] flaky_run failed
    by simp
qed

text \<open>
  Claim C1 as stated fails against the flaky service: the update of the cached
  identifier fails, the retry after the listing fails as well, and the function retries
  once more: three updates and two listings in one call.
\<close>

theorem second_failure_retried_again:
  "syncCollectionToPostman flaky billing warm = Some (Inr flaky_end)
   \<and> requests (trace flaky_end) =
       [Put (JStr ''abc'') (portmanCollection billing), Get,
        Put (JStr ''def'') (portmanCollection billing), Get,
        Put (JStr ''def'') (portmanCollection billing)]"
  by code_simp

subsection \<open>Writing the cache file\<close>

text \<open>
  Claim C3, as amended. On the cache-assisted path the cache file is written once after
  every update request, whether it succeeded or failed (so once in every pass that ends
  in a restart), and once after a successful create; it is not written after a failed
  create. Whether the writes succeed does not matter to the caller: the run throws
  nothing.
\<close>

theorem cache_written_per_attempt:
  assumes "syncCollectionToPostman E P s = Some r"
    and "consoleLine E = Inr n" and "portmanCacheFile s \<noteq> Document DNull"
    and "syncPostman P" and "pinned_uid P = None"
  shows "\<exists>s'. r = Inr s'
           \<and> length (filter is_write (added s s')) =
               length (filter is_update (added s s')) + length (filter is_created (added s s'))"
proof -
  from sync_no_exception [OF assms(1-3)] obtain s' where r: "r = Inr s'"
    by blast
  from sync_counts [OF assms(1) [unfolded r] assms(4,5)] r show ?thesis
    by (auto simp: added_def)
qed

theorem cache_written_per_attempt_witness:
  "syncCollectionToPostman flaky billing warm = Some (Inr flaky_end)
   \<and> length (filter is_write (added warm flaky_end)) = 3
   \<and> length (filter is_update (added warm flaky_end)) = 3
   \<and> length (filter is_created (added warm flaky_end)) = 0"
proof -
  have line: "consoleLine flaky = Inr 40"
    by (simp add: consoleLine_def flaky_def healthy_def)
  have doc: "portmanCacheFile warm \<noteq> Document DNull"
    by (simp add: warm_def)
  have on: "syncPostman billing"
    by (simp add: billing_def)
  have free: "pinned_uid billing = None"
    by (simp add: pinned_uid_def billing_def)
  have updates: "length (filter is_update (added warm flaky_end)) = 3"
    and created: "length (filter is_created (added warm flaky_end)) = 0"
    by (simp_all add: added_def warm_def flaky_end_def not_found_def listed_def_def)
  show ?thesis
    using cache_written_per_attempt [OF flaky_run line doc on free] flaky_run updates created
    by simp
qed

text \<open>
  Claim C3 as stated fails when the create request fails: the function returns without
  having written the cache file at all.
\<close>

theorem failed_create_writes_nothing:
  "syncCollectionToPostman unreachable billing cold = Some (Inr unreachable_cold_end)
   \<and> filter is_write (trace unreachable_cold_end) = []"
  by code_simp

subsection \<open>What a failed update does to the cache\<close>




subsection \<open>A cache file that cannot be read\<close>

lemma fst_load:
  "fst (load s) = (case portmanCacheFile s of Document d \<Rightarrow> d | _ \<Rightarrow> DObject [])"
  by (simp add: load_def read_and_parse_def split: cache_file.splits)

lemma load_emit [simp]: "fst (load (emit e s)) = fst (load s)"
  by (simp add: fst_load)

lemma load_save [simp]:
  "fst (load (save E c s)) = (if write_ok E (length (trace s)) then c else fst (load s))"
  by (simp add: fst_load)

lemma load_report [simp]: "fst (load (report u resp s)) = fst (load s)"
  by (simp add: report_def)

lemma observed_emit: "observed a = observed b \<Longrightarrow> observed (emit e a) = observed (emit e b)"
  by (simp add: observed_def)

lemma observed_save: "observed a = observed b \<Longrightarrow> observed (save E c a) = observed (save E c b)"
  by (simp add: observed_def)

lemma observed_report:
  "observed a = observed b \<Longrightarrow> observed (report u resp a) = observed (report u resp b)"
  by (simp add: observed_def)

text \<open>The listing reads nothing of the state but the length of the trace.\<close>

lemma findCollectionByName_observed:
  assumes "observed a = observed b"
  shows "fst (findCollectionByName E cn a) = fst (findCollectionByName E cn b)
       \<and> observed (snd (findCollectionByName E cn a)) = observed (snd (findCollectionByName E cn b))"
proof -
  from assms have tr: "trace b = trace a" and ld: "fst (load b) = fst (load a)"
    by (simp_all add: observed_def)
  have "fst (findCollectionByName E cn b) = fst (findCollectionByName E cn a)"
    by (simp add: findCollectionByName_def send_eq caught_def pick_match_def tr
        split: axios_result.splits json.splits option.splits sum.splits)
  moreover have "trace (snd (findCollectionByName E cn b)) = trace (snd (findCollectionByName E cn a))"
    by (simp add: findCollectionByName_def send_eq caught_def pick_match_def tr
        split: axios_result.splits json.splits option.splits sum.splits)
  moreover have "fst (load (snd (findCollectionByName E cn b))) = fst (load (snd (findCollectionByName E cn a)))"
    by (simp add: fst_load ld [unfolded fst_load])
  ultimately show ?thesis
    by (simp add: observed_def)
qed

lemma reconcile_observed:
  assumes "observed a = observed b" and "reconcile E P c rc a = (resp, restart, a1)"
  shows "\<exists>b1. reconcile E P c rc b = (resp, restart, b1) \<and> observed a1 = observed b1"
proof -
  from assms(1) have len: "length (trace b) = length (trace a)"
    by (simp add: observed_def)
  from assms(2) show ?thesis
  proof (cases rule: reconcile_cases)
    case (update_failed u msg payload)
    from update_failed(2) have "axios E (length (trace b)) (Put u (portmanCollection P)) = Rejected msg payload"
      by (simp add: len)
    from reconcile_update_failed [OF update_failed(1) this]
    have "reconcile E P c rc b = (resp, restart,
        save E (remove c (collName P))
          (emit (Request (Put u (portmanCollection P)) (Rejected msg payload)) b))"
      by (simp add: update_failed(3,4))
    moreover have "observed a1 = observed (save E (remove c (collName P))
          (emit (Request (Put u (portmanCollection P)) (Rejected msg payload)) b))"
      unfolding update_failed(5) by (intro observed_save observed_emit assms(1))
    ultimately show ?thesis by blast
  next
    case (update_done u d)
    from update_done(2) have "axios E (length (trace b)) (Put u (portmanCollection P)) = Fulfilled d"
      by (simp add: len)
    from reconcile_update_done [OF update_done(1) this]
    have "reconcile E P c rc b = (resp, restart,
        save E (put c (collName P) (cache_entry (collName P) (Some d)))
          (emit (Request (Put u (portmanCollection P)) (Fulfilled d)) b))"
      by (simp add: update_done(3,4))
    moreover have "observed a1 = observed (save E (put c (collName P) (cache_entry (collName P) (Some d)))
          (emit (Request (Put u (portmanCollection P)) (Fulfilled d)) b))"
      unfolding update_done(5) by (intro observed_save observed_emit assms(1))
    ultimately show ?thesis by blast
  next
    case (create_failed msg payload)
    from create_failed(2) have "axios E (length (trace b)) (Post (portmanCollection P)) = Rejected msg payload"
      by (simp add: len)
    from reconcile_create_failed [OF create_failed(1) this]
    have "reconcile E P c rc b = (resp, restart,
        emit (Console (CreateData payload))
          (emit (Request (Post (portmanCollection P)) (Rejected msg payload)) b))"
      by (simp add: create_failed(3,4))
    moreover have "observed a1 = observed (emit (Console (CreateData payload))
          (emit (Request (Post (portmanCollection P)) (Rejected msg payload)) b))"
      unfolding create_failed(5) by (intro observed_emit assms(1))
    ultimately show ?thesis by blast
  next
    case (create_done d)
    from create_done(2) have "axios E (length (trace b)) (Post (portmanCollection P)) = Fulfilled d"
      by (simp add: len)
    from reconcile_create_done [OF create_done(1) this]
    have "reconcile E P c rc b = (resp, restart,
        save E (put c (collName P) (cache_entry (collName P) (Some d)))
          (emit (Console (CreateData (Some d)))
            (emit (Request (Post (portmanCollection P)) (Fulfilled d)) b)))"
      by (simp add: create_done(3,4))
    moreover have "observed a1 = observed (save E (put c (collName P) (cache_entry (collName P) (Some d)))
          (emit (Console (CreateData (Some d)))
            (emit (Request (Post (portmanCollection P)) (Fulfilled d)) b)))"
      unfolding create_done(5) by (intro observed_save observed_emit assms(1))
    ultimately show ?thesis by blast
  qed
qed

lemma cache_path_observed:
  assumes "observed a = observed b"
  shows "rel_sum (=) (\<lambda>(resp, restart, a1) (resp', restart', b1).
            resp = resp' \<and> restart = restart' \<and> observed a1 = observed b1)
          (cache_path E P a) (cache_path E P b)"
proof -
  let ?c = "fst (load a)"
  from assms have c: "fst (load b) = ?c" and tr: "trace b = trace a"
    by (simp_all add: observed_def)
  let ?a1 = "emit (ReadCache ?c) a" and ?b1 = "emit (ReadCache ?c) b"
  have o1: "observed ?a1 = observed ?b1"
    using assms by (rule observed_emit)
  show ?thesis
  proof (cases "subscript ?c (collName P)")
    case (Inl e)
    then have "resolve E (collName P) ?c ?a1 = Inl e" "resolve E (collName P) ?c ?b1 = Inl e"
      by (simp_all add: resolve_throws)
    then show ?thesis
      by (simp add: cache_path_eq c)
  next
    case (Inr m)
    show ?thesis
    proof (cases "truthy_member m")
      case True
      then obtain x where x: "m = Some x"
        by (cases m) (simp_all add: truthy_member_def)
      obtain resp restart a2 where ra: "reconcile E P ?c x ?a1 = (resp, restart, a2)"
        by (cases "reconcile E P ?c x ?a1") auto
      from reconcile_observed [OF o1 ra] obtain b2 where
        "reconcile E P ?c x ?b1 = (resp, restart, b2)" "observed a2 = observed b2"
        by blast
      with ra show ?thesis
        by (simp add: cache_path_eq c resolve_hit [OF Inr [unfolded x] True [unfolded x]])
    next
      case False
      let ?fa = "findCollectionByName E (collName P) ?a1"
      let ?fb = "findCollectionByName E (collName P) ?b1"
      from findCollectionByName_observed [OF o1, of E "collName P"]
      have f: "fst ?fb = fst ?fa" and o2: "observed (snd ?fa) = observed (snd ?fb)"
        by simp_all
      obtain resp restart a2 where ra: "reconcile E P ?c (Own (fst ?fa)) (snd ?fa) = (resp, restart, a2)"
        by (cases "reconcile E P ?c (Own (fst ?fa)) (snd ?fa)") auto
      from reconcile_observed [OF o2 ra] obtain b2 where
        "reconcile E P ?c (Own (fst ?fa)) (snd ?fb) = (resp, restart, b2)" "observed a2 = observed b2"
        by blast
      with ra f show ?thesis
        by (simp add: cache_path_eq c resolve_miss [OF Inr False])
    qed
  qed
qed

text \<open>Two runs from states that look the same end the same way.\<close>

lemma sync_observed_step:
  assumes "syncCollectionToPostman E P a = Some r" and "observed a = observed b"
  shows "\<exists>r'. syncCollectionToPostman E P b = Some r' \<and> rel_sum (=) (\<lambda>a' b'. observed a' = observed b') r r'"
proof -
  have "\<forall>b. observed a = observed b \<longrightarrow>
          (\<exists>r'. syncCollectionToPostman E P b = Some r'
             \<and> rel_sum (=) (\<lambda>a' b'. observed a' = observed b') r r')"
    using assms(1)
  proof (induction rule: syncCollectionToPostman_induct)
    case (range_error a e)
    then show ?case
      by (simp add: syncCollectionToPostman.simps)
  next
    case (off a n)
    then show ?case
      by (simp add: syncCollectionToPostman.simps)
  next
    case (pinned a n u resp a1)
    show ?case
    proof (intro allI impI)
      fix b assume o: "observed a = observed b"
      then have len: "length (trace b) = length (trace a)"
        by (simp add: observed_def)
      from pinned(4) have resp: "resp = fst (updateCollection E (portmanCollection P) (JStr u) b)"
        and a1: "a1 = emit (Request (Put (JStr u) (portmanCollection P))
                    (axios E (length (trace a)) (Put (JStr u) (portmanCollection P)))) a"
        by (simp_all add: updateCollection_eq len)
      have "syncCollectionToPostman E P b = Some (Inr (report u resp
          (emit (Request (Put (JStr u) (portmanCollection P))
                    (axios E (length (trace a)) (Put (JStr u) (portmanCollection P)))) b)))"
        using pinned(1-3) by (subst syncCollectionToPostman.simps) (simp add: updateCollection_eq len resp)
      then show "\<exists>r'. syncCollectionToPostman E P b = Some r'
          \<and> rel_sum (=) (\<lambda>a' b'. observed a' = observed b') (Inr (report u resp a1)) r'"
        using observed_report [OF observed_emit [OF o]] by (simp add: a1)
    qed
  next
    case (lookup_error a n e)
    show ?case
    proof (intro allI impI)
      fix b assume o: "observed a = observed b"
      from cache_path_observed [OF o, of E P] lookup_error(4) have "cache_path E P b = Inl e"
        by (cases "cache_path E P b") simp_all
      with lookup_error(1-3) show "\<exists>r'. syncCollectionToPostman E P b = Some r'
          \<and> rel_sum (=) (\<lambda>a' b'. observed a' = observed b') (Inl e) r'"
        by (subst syncCollectionToPostman.simps) simp
    qed
  next
    case (finished a n resp a1)
    show ?case
    proof (intro allI impI)
      fix b assume o: "observed a = observed b"
      from cache_path_observed [OF o, of E P] finished(4) obtain b1 where
        b1: "cache_path E P b = Inr (resp, False, b1)" "observed a1 = observed b1"
        by (cases "cache_path E P b") auto
      show "\<exists>r'. syncCollectionToPostman E P b = Some r'
          \<and> rel_sum (=) (\<lambda>a' b'. observed a' = observed b') (Inr (report (collName P) resp a1)) r'"
        by (simp add: sync_finished [OF finished(1-3) b1(1)] observed_report [OF b1(2)])
    qed
  next
    case (restart_error a n resp a1 e)
    show ?case
    proof (intro allI impI)
      fix b assume o: "observed a = observed b"
      from cache_path_observed [OF o, of E P] restart_error(4) obtain b1 where
        b1: "cache_path E P b = Inr (resp, True, b1)" "observed a1 = observed b1"
        by (cases "cache_path E P b") auto
      from restart_error.IH b1(2) have "syncCollectionToPostman E P b1 = Some (Inl e)"
        by (auto elim: rel_sum.cases)
      then show "\<exists>r'. syncCollectionToPostman E P b = Some r'
          \<and> rel_sum (=) (\<lambda>a' b'. observed a' = observed b') (Inl e) r'"
        by (simp add: sync_restart [OF restart_error(1-3) b1(1)])
    qed
  next
    case (restart a n resp a1 a2)
    show ?case
    proof (intro allI impI)
      fix b assume o: "observed a = observed b"
      from cache_path_observed [OF o, of E P] restart(4) obtain b1 where
        b1: "cache_path E P b = Inr (resp, True, b1)" "observed a1 = observed b1"
        by (cases "cache_path E P b") auto
      from restart.IH b1(2) obtain b2 where
        "syncCollectionToPostman E P b1 = Some (Inr b2)" "observed a2 = observed b2"
        by (auto elim: rel_sum.cases)
      then show "\<exists>r'. syncCollectionToPostman E P b = Some r'
          \<and> rel_sum (=) (\<lambda>a' b'. observed a' = observed b') (Inr (report (collName P) resp a2)) r'"
        using observed_report [of a2 b2] by (simp add: sync_restart [OF restart(1-3) b1(1)])
    qed
  qed
  with assms(2) show ?thesis by blast
qed

lemma sync_observed:
  assumes "observed a = observed b"
  shows "map_option (map_sum id observed) (syncCollectionToPostman E P a) =
         map_option (map_sum id observed) (syncCollectionToPostman E P b)"
proof (cases "syncCollectionToPostman E P a")
  case None
  have "syncCollectionToPostman E P b = None"
  proof (rule ccontr)
    assume "syncCollectionToPostman E P b \<noteq> None"
    then obtain r where "syncCollectionToPostman E P b = Some r" by blast
    from sync_observed_step [OF this assms [symmetric]] None show False by simp
  qed
  with None show ?thesis by simp
next
  case (Some r)
  from sync_observed_step [OF Some assms] obtain r' where
    "syncCollectionToPostman E P b = Some r'" "rel_sum (=) (\<lambda>a' b'. observed a' = observed b') r r'"
    by blast
  with Some show ?thesis
    by (auto elim!: rel_sum.cases)
qed

text \<open>
  Claim C6. Loading the cache returns a document in every state of the file: both the
  failure of \<^verbatim>\<open>readFileSync\<close> and that of \<^verbatim>\<open>JSON.parse\<close> are caught. When the file is
  absent or is not JSON, the document is the empty object, and the run that follows
  behaves as the run from a file holding \<^verbatim>\<open>{}\<close>: both return, throw or do not end
  alike, with the same trace of reads, requests, writes and console lines, and leave
  cache files that load to the same document.
\<close>

theorem unreadable_cache_is_empty_cache:
  assumes "portmanCacheFile s = Absent \<or> portmanCacheFile s = Malformed"
  shows "(\<exists>c. load s0 = (c, emit (ReadCache c) s0))
       \<and> load s = (DObject [], emit (ReadCache (DObject [])) s)
       \<and> map_option (map_sum id observed) (syncCollectionToPostman E P s) =
         map_option (map_sum id observed)
           (syncCollectionToPostman E P (s\<lparr>portmanCacheFile := Document (DObject [])\<rparr>))"
proof -
  from assms have l: "load s = (DObject [], emit (ReadCache (DObject [])) s)"
    by (auto simp: load_def read_and_parse_def)
  then have "observed s = observed (s\<lparr>portmanCacheFile := Document (DObject [])\<rparr>)"
    by (simp add: observed_def fst_load)
  from sync_observed [OF this] l load_eq [of s0] show ?thesis
    by blast
qed

theorem unreadable_cache_is_empty_cache_witness:
  "(\<exists>c. load warm = (c, emit (ReadCache c) warm))
   \<and> load missing = (DObject [], emit (ReadCache (DObject [])) missing)
   \<and> map_option (map_sum id observed) (syncCollectionToPostman healthy billing missing) =
     map_option (map_sum id observed) (syncCollectionToPostman healthy billing cold)"
proof -
  have absent: "portmanCacheFile missing = Absent \<or> portmanCacheFile missing = Malformed"
    by (simp add: missing_def)
  have cold: "missing\<lparr>portmanCacheFile := Document (DObject [])\<rparr> = cold"
    by (simp add: missing_def cold_def)
  show ?thesis
    using unreadable_cache_is_empty_cache [OF absent, of warm healthy billing]
    by (simp add: cold)
qed

subsection \<open>A run that never returns\<close>

text \<open>
  A run does not return when every pass restarts: \<open>I\<close> is a property of the states at
  which the passes start.
\<close>

lemma sync_diverges:
  assumes "consoleLine E = Inr n" and "syncPostman P" and "pinned_uid P = None"
    and start: "I s"
    and step: "\<And>s. I s \<Longrightarrow> \<exists>resp s1. cache_path E P s = Inr (resp, True, s1) \<and> I s1"
  shows "syncCollectionToPostman E P s = None"
proof (rule ccontr)
  assume "syncCollectionToPostman E P s \<noteq> None"
  then obtain r where "syncCollectionToPostman E P s = Some r"
    by blast
  then have "\<not> I s"
    using assms(1-3)
  proof (induction rule: syncCollectionToPostman_induct)
    case (lookup_error s n e)
    then show ?case using step [of s] by auto
  next
    case (finished s n resp s1)
    then show ?case using step [of s] by auto
  next
    case (restart_error s n resp s1 e)
    then show ?case using step [of s] by auto
  next
    case (restart s n resp s1 s2)
    then show ?case using step [of s] by auto
  qed simp_all
  with start show False by simp
qed

lemma rejecting_matches:
  "filter_matches ''Billing API'' [summary ''def'' ''billing api'' 100] =
     Inr [summary ''def'' ''billing api'' 100]"
  by code_simp

lemma rejecting_pass:
  assumes "portmanCacheFile s = Document (warm_entry ''abc'') \<or> portmanCacheFile s = Document (DObject [])"
  shows "\<exists>resp s1. cache_path rejecting billing s = Inr (resp, True, s1)
           \<and> portmanCacheFile s1 = Document (DObject [])"
proof -
  have put: "axios rejecting t (Put u c) = not_found" for t u c
    by (simp add: rejecting_def)
  have get: "axios rejecting t Get =
      Fulfilled (JObj [(''collections'', JArr [summary ''def'' ''billing api'' 100])])" for t
    by (simp add: rejecting_def)
  have ok: "write_ok rejecting t" for t
    by (simp add: rejecting_def healthy_def)
  have [simp]: "collName billing = ''Billing API''"
    by (simp add: billing_def)
  from assms show ?thesis
  proof
    assume f: "portmanCacheFile s = Document (warm_entry ''abc'')"
    let ?entry = "JObj [(''name'', JStr ''Billing API''), (''uid'', JStr ''abc'')]"
    let ?s1 = "emit (ReadCache (warm_entry ''abc'')) s"
    have ld: "fst (load s) = warm_entry ''abc''"
      by (simp add: fst_load f)
    have res: "resolve rejecting ''Billing API'' (warm_entry ''abc'') ?s1 = Inr (Own ?entry, ?s1)"
      by (simp add: resolve_def subscript_def lookup_def warm_entry_def truthy_member_def)
    have uid: "uid_of (Own ?entry) = Some (JStr ''abc'')"
      by (simp add: uid_of_def opt_prop_def)
    have rm: "remove (warm_entry ''abc'') ''Billing API'' = DObject []"
      by (simp add: remove_def warm_entry_def)
    have upd: "axios rejecting (length (trace ?s1)) (Put (JStr ''abc'') (portmanCollection billing)) =
        Rejected ''Error: Request failed with status code 404''
          (Some (JObj [(''error'', JObj [(''name'', JStr ''instanceNotFoundError'')])]))"
      by (simp add: put not_found_def)
    show ?thesis
      using reconcile_update_failed [OF uid upd, of "warm_entry ''abc''"]
      by (simp add: cache_path_eq ld res rm ok)
  next
    assume f: "portmanCacheFile s = Document (DObject [])"
    let ?m = "summary ''def'' ''billing api'' 100"
    let ?s1 = "emit (ReadCache (DObject [])) s"
    let ?s2 = "emit (Request Get (Fulfilled (JObj [(''collections'', JArr [?m])]))) ?s1"
    have ld: "fst (load s) = DObject []"
      by (simp add: fst_load f)
    have found: "findCollectionByName rejecting ''Billing API'' ?s1 = (?m, ?s2)"
      by (simp add: findCollectionByName_matches [OF get _ rejecting_matches] pick_match_def)
    have res: "resolve rejecting ''Billing API'' (DObject []) ?s1 = Inr (Own ?m, ?s2)"
      by (simp add: resolve_def subscript_def lookup_def builtin_member_def
          object_prototype_names_def listed_def found)
    have uid: "uid_of (Own ?m) = Some (JStr ''def'')"
      by (simp add: uid_of_def opt_prop_def summary_def)
    have rm: "remove (DObject []) ''Billing API'' = DObject []"
      by (simp add: remove_def)
    have upd: "axios rejecting (length (trace ?s2)) (Put (JStr ''def'') (portmanCollection billing)) =
        Rejected ''Error: Request failed with status code 404''
          (Some (JObj [(''error'', JObj [(''name'', JStr ''instanceNotFoundError'')])]))"
      by (simp add: put not_found_def)
    show ?thesis
      using reconcile_update_failed [OF uid upd, of "DObject []"]
      by (simp add: cache_path_eq ld res rm ok)
  qed
qed

text \<open>
  Against a service that rejects every update and keeps listing the collection, the
  synchronisation never returns: each pass ends in a failed update and a restart.
\<close>

theorem rejected_updates_never_return:
  "syncCollectionToPostman rejecting billing warm = None"
proof -
  let ?I = "\<lambda>s :: state. portmanCacheFile s = Document (warm_entry ''abc'')
              \<or> portmanCacheFile s = Document (DObject [])"
  have line: "consoleLine rejecting = Inr 40"
    by (simp add: consoleLine_def rejecting_def healthy_def)
  have on: "syncPostman billing"
    by (simp add: billing_def)
  have free: "pinned_uid billing = None"
    by (simp add: pinned_uid_def billing_def)
  have start: "?I warm"
    by (simp add: warm_def warm_entry_def)
  show ?thesis
    using line on free start
  proof (rule sync_diverges [where I = ?I])
    fix s :: state
    assume "?I s"
    from rejecting_pass [OF this]
    show "\<exists>resp s1. cache_path rejecting billing s = Inr (resp, True, s1) \<and> ?I s1"
      by blast
  qed
qed

end
